theory Spec2Isabelle
  imports Main "HOL-Library.Word"
begin

section \<open>Errors of the embedded code\<close>

text \<open>
  The C++ of \<^verbatim>\<open>intern/cycles/render/osl.cpp\<close> fails in two ways that the model keeps as
  values: a dereference of a NULL pointer, and \<^verbatim>\<open>std::string::substr\<close> called with a
  position beyond the end of the string (it throws \<^verbatim>\<open>std::out_of_range\<close>).
\<close>

datatype error = Null_dereference | Out_of_range

section \<open>Shared texture and shading system\<close>

text \<open>
  The static members \<^verbatim>\<open>ts_shared\<close>, \<^verbatim>\<open>ts_shared_users\<close>, \<^verbatim>\<open>ss_shared\<close>,
  \<^verbatim>\<open>services_shared\<close> and \<^verbatim>\<open>ss_shared_users\<close> of \<^verbatim>\<open>OSLShaderManager\<close> form one record;
  a pointer is an option (NULL is \<open>None\<close>) and the two \<^verbatim>\<open>int\<close> counters are 32-bit words
  read as two's complement, so that \<^verbatim>\<open>++\<close> and \<^verbatim>\<open>--\<close> are the machine's.
  The objects the OSL library constructs are recorded by the attributes the code sets on them.
\<close>

datatype attr_value = AttrInt int | AttrString string | AttrStrings "string list"

record TextureSystem =
  ts_attributes :: "(string \<times> attr_value) list"

record OSLRenderServices =
  services_texture_system :: "TextureSystem option"

record ShadingSystem =
  ss_renderer :: OSLRenderServices
  ss_texture_system :: "TextureSystem option"
  ss_attributes :: "(string \<times> attr_value) list"
  ss_closures_registered :: bool

record shared_globals =
  ts_shared :: "TextureSystem option"
  ts_shared_users :: "32 word"
  ss_shared :: "ShadingSystem option"
  services_shared :: "OSLRenderServices option"
  ss_shared_users :: "32 word"

text \<open>
  The members of one \<^verbatim>\<open>OSLShaderManager\<close> that the four functions write. The map
  \<^verbatim>\<open>loaded_shaders\<close> is only cleared here, so its value type is left open.
\<close>

record 'info manager_members =
  ts :: "TextureSystem option"
  ss :: "ShadingSystem option"
  services :: "OSLRenderServices option"
  loaded_shaders_member :: "string \<rightharpoonup> 'info"

definition raytypes :: "string list" where
  "raytypes =
     [''camera'', ''reflection'', ''refraction'', ''diffuse'', ''glossy'', ''singular'',
      ''transparent'', ''volume_scatter'', ''shadow'', ''shadow'', ''__unused__'', ''__unused__'',
      ''diffuse_ancestor'', ''__unused__'', ''__unused__'', ''__unused__'', ''__unused__'',
      ''__unused__'', ''__unused__'', ''__unused__'', ''__unused__'', ''__unused__'',
      ''__unused__'', ''__unused__'', ''__unused__'', ''__unused__'']"

definition new_texture_system :: TextureSystem where
  "new_texture_system =
     \<lparr>ts_attributes =
        [(''automip'', AttrInt 1), (''autotile'', AttrInt 64), (''gray_to_rgb'', AttrInt 1),
         (''max_memory_MB'', AttrInt 16384)]\<rparr>"

definition new_shading_system ::
  "string \<Rightarrow> OSLRenderServices \<Rightarrow> TextureSystem option \<Rightarrow> ShadingSystem" where
  "new_shading_system shader_path srv tex =
     \<lparr>ss_renderer = srv, ss_texture_system = tex,
      ss_attributes =
        [(''lockgeom'', AttrInt 1), (''commonspace'', AttrString ''world''),
         (''searchpath:shader'', AttrString shader_path), (''greedyjit'', AttrInt 1),
         (''raytypes'', AttrStrings raytypes)],
      ss_closures_registered = True\<rparr>"

definition texture_system_init ::
  "shared_globals \<times> 'i manager_members \<Rightarrow> shared_globals \<times> 'i manager_members" where
  "texture_system_init gm =
     (let (g, m) = gm;
          g1 = (if ts_shared_users g = 0 then g\<lparr>ts_shared := Some new_texture_system\<rparr> else g)
      in (g1\<lparr>ts_shared_users := ts_shared_users g1 + 1\<rparr>, m\<lparr>ts := ts_shared g1\<rparr>))"

definition texture_system_free ::
  "shared_globals \<times> 'i manager_members \<Rightarrow> error + shared_globals \<times> 'i manager_members" where
  "texture_system_free gm =
     (let (g, m) = gm;
          g1 = g\<lparr>ts_shared_users := ts_shared_users g - 1\<rparr>
      in if ts_shared_users g1 = 0
         then (case ts_shared g1 of
                 None \<Rightarrow> Inl Null_dereference
               | Some t \<Rightarrow> Inr (g1\<lparr>ts_shared := None\<rparr>, m\<lparr>ts := None\<rparr>))
         else Inr (g1, m\<lparr>ts := None\<rparr>))"

text \<open>
  \<^verbatim>\<open>path_get("shader")\<close> (with \<^verbatim>\<open>string_to_ansi\<close> on Windows) is not part of the
  sources at hand: the search path it yields is the parameter \<open>shader_path\<close>.
\<close>

definition shading_system_init ::
  "string \<Rightarrow> shared_globals \<times> 'i manager_members \<Rightarrow> shared_globals \<times> 'i manager_members" where
  "shading_system_init shader_path gm =
     (let (g, m) = gm;
          (g1, m1) =
            (if ss_shared_users g = 0
             then (let srv = \<lparr>services_texture_system = ts_shared g\<rparr>
                   in (g\<lparr>services_shared := Some srv,
                         ss_shared := Some (new_shading_system shader_path srv (ts_shared g))\<rparr>,
                       m\<lparr>loaded_shaders_member := Map.empty\<rparr>))
             else (g, m))
      in (g1\<lparr>ss_shared_users := ss_shared_users g1 + 1\<rparr>,
          m1\<lparr>ss := ss_shared g1, services := services_shared g1\<rparr>))"

definition shading_system_free ::
  "shared_globals \<times> 'i manager_members \<Rightarrow> shared_globals \<times> 'i manager_members" where
  "shading_system_free gm =
     (let (g, m) = gm;
          g1 = g\<lparr>ss_shared_users := ss_shared_users g - 1\<rparr>;
          g2 = (if ss_shared_users g1 = 0
                then g1\<lparr>ss_shared := None, services_shared := None\<rparr> else g1)
      in (g2, m\<lparr>ss := None, services := None\<rparr>))"

text \<open>The invariants of the claim: a shared instance exists exactly while it has users.\<close>

definition ts_invariant :: "shared_globals \<Rightarrow> bool" where
  "ts_invariant g = ((ts_shared g \<noteq> None) = (0 < sint (ts_shared_users g)))"

definition ss_invariant :: "shared_globals \<Rightarrow> bool" where
  "ss_invariant g = ((ss_shared g \<noteq> None) = (0 < sint (ss_shared_users g)))"

definition INT_MAX :: int where
  "INT_MAX = 2147483647"

definition INT_MIN :: int where
  "INT_MIN = - 2147483648"

text \<open>A state with one user of the texture system and two of the shading system.\<close>

definition example_globals :: shared_globals where
  "example_globals =
     \<lparr>ts_shared = Some new_texture_system, ts_shared_users = 1,
      ss_shared =
        Some (new_shading_system ''shader''
          \<lparr>services_texture_system = Some new_texture_system\<rparr> (Some new_texture_system)),
      services_shared = Some \<lparr>services_texture_system = Some new_texture_system\<rparr>,
      ss_shared_users = 2\<rparr>"

definition example_manager :: "unit manager_members" where
  "example_manager =
     \<lparr>ts = ts_shared example_globals, ss = ss_shared example_globals,
      services = services_shared example_globals, loaded_shaders_member = Map.empty\<rparr>"

section \<open>Shader graphs\<close>

text \<open>
  \<^verbatim>\<open>render/graph.h\<close> is not among the sources at hand; the graph is modelled by what
  \<^verbatim>\<open>osl.cpp\<close> reads of it. A \<^verbatim>\<open>ShaderNode *\<close> is a number (the node's id, which
  \<^verbatim>\<open>ShaderNodeSet\<close> orders its elements by) and the graph maps it to the node it points to.
  An input's \<^verbatim>\<open>link\<close> is the output socket it is connected to, NULL (\<open>None\<close>) when it is not
  connected. \<open>input_svm_internal\<close> is the value of the test
  \<^verbatim>\<open>input->flags() & SocketType::SVM_INTERNAL\<close>. The virtual predicates of a node
  (\<^verbatim>\<open>has_surface_emission()\<close> and the others) are fields of the node.

  The virtual \<^verbatim>\<open>ShaderNode::compile\<close> is implemented in \<^verbatim>\<open>render/nodes.cpp\<close>, which
  is not at hand either. It reaches the shader being compiled through
  \<^verbatim>\<open>OSLCompiler::add\<close> only, so a node carries the calls of \<^verbatim>\<open>add\<close> that its
  \<^verbatim>\<open>compile\<close> makes, each with the answer of the shader manager: \<open>Not_loaded\<close> when the
  name was a file path and \<^verbatim>\<open>shader_load_filepath\<close> returned NULL, otherwise the result of
  \<^verbatim>\<open>shader_loaded_info\<close>, which is NULL (\<open>None\<close>) for a name that is not in
  \<^verbatim>\<open>loaded_shaders\<close>.
\<close>

text \<open>
  \<^verbatim>\<open>OSLShaderInfo\<close>: the three flags, and the bytecode its \<^verbatim>\<open>query\<close> was opened on
  (\<open>None\<close> for a default-constructed one).
\<close>

record OSLShaderInfo =
  query :: "string option"
  info_has_surface_emission :: bool
  info_has_surface_transparent :: bool
  info_has_surface_bssrdf :: bool

datatype add_lookup = Not_loaded | Loaded "OSLShaderInfo option"

type_synonym node_ptr = nat

datatype ShaderSpecialType =
  SHADER_SPECIAL_TYPE_NONE | SHADER_SPECIAL_TYPE_OUTPUT | SHADER_SPECIAL_TYPE_BUMP
  | SHADER_SPECIAL_TYPE_OTHER

datatype ShaderType =
  SHADER_TYPE_SURFACE | SHADER_TYPE_VOLUME | SHADER_TYPE_DISPLACEMENT | SHADER_TYPE_BUMP

record ShaderOutput =
  output_parent :: node_ptr
  output_name :: string

record ShaderInput =
  input_name :: string
  input_svm_internal :: bool
  link :: "ShaderOutput option"

record ShaderNode =
  special_type :: ShaderSpecialType
  inputs :: "ShaderInput list"
  node_has_surface_emission :: bool
  node_has_surface_transparent :: bool
  node_feature_raytrace :: bool
  node_has_spatial_varying :: bool
  node_has_surface_bssrdf :: bool
  node_has_bssrdf_bump :: bool
  node_has_bump :: bool
  node_has_attribute_dependency :: bool
  node_has_integrator_dependency :: bool
  node_compile_adds :: "add_lookup list"

record ShaderGraph =
  graph_node :: "node_ptr \<Rightarrow> ShaderNode"
  graph_output :: node_ptr

subsection \<open>\<^verbatim>\<open>OSLCompiler::node_skip_input\<close>\<close>

definition node_skip_input ::
  "ShaderType \<Rightarrow> ShaderGraph \<Rightarrow> ShaderNode \<Rightarrow> ShaderInput \<Rightarrow> bool" where
  "node_skip_input current_type g node input =
     (if input_svm_internal input then True
      else if special_type node = SHADER_SPECIAL_TYPE_OUTPUT then
        (if input_name input = ''Surface'' \<and> current_type \<noteq> SHADER_TYPE_SURFACE then True
         else if input_name input = ''Volume'' \<and> current_type \<noteq> SHADER_TYPE_VOLUME then True
         else if input_name input = ''Displacement'' \<and> current_type \<noteq> SHADER_TYPE_DISPLACEMENT
           then True
         else if input_name input = ''Normal'' \<and> current_type \<noteq> SHADER_TYPE_BUMP then True
         else False)
      else if special_type node = SHADER_SPECIAL_TYPE_BUMP then
        (if input_name input = ''Height'' then True else False)
      else if current_type = SHADER_TYPE_DISPLACEMENT \<and>
          (case link input of
             None \<Rightarrow> False
           | Some l \<Rightarrow> special_type (graph_node g (output_parent l)) = SHADER_SPECIAL_TYPE_BUMP)
        then True
      else False)"

text \<open>
  The skip rules as the specification words them, for comparison with the code: rule (4)
  is worded for any node.
\<close>

definition spec_skip_rules ::
  "ShaderType \<Rightarrow> ShaderGraph \<Rightarrow> ShaderNode \<Rightarrow> ShaderInput \<Rightarrow> bool" where
  "spec_skip_rules current_type g node input =
     (input_svm_internal input \<or>
      (special_type node = SHADER_SPECIAL_TYPE_OUTPUT \<and>
        ((input_name input = ''Surface'' \<and> current_type \<noteq> SHADER_TYPE_SURFACE) \<or>
         (input_name input = ''Volume'' \<and> current_type \<noteq> SHADER_TYPE_VOLUME) \<or>
         (input_name input = ''Displacement'' \<and> current_type \<noteq> SHADER_TYPE_DISPLACEMENT) \<or>
         (input_name input = ''Normal'' \<and> current_type \<noteq> SHADER_TYPE_BUMP))) \<or>
      (special_type node = SHADER_SPECIAL_TYPE_BUMP \<and> input_name input = ''Height'') \<or>
      (current_type = SHADER_TYPE_DISPLACEMENT \<and>
        (case link input of
           None \<Rightarrow> False
         | Some l \<Rightarrow> special_type (graph_node g (output_parent l)) = SHADER_SPECIAL_TYPE_BUMP)))"

text \<open>
  The rules the code implements: rule (4) is the last branch of an \<^verbatim>\<open>else if\<close> chain and
  applies only to a node that is neither the Output node nor a Bump node.
\<close>

definition code_skip_rules ::
  "ShaderType \<Rightarrow> ShaderGraph \<Rightarrow> ShaderNode \<Rightarrow> ShaderInput \<Rightarrow> bool" where
  "code_skip_rules current_type g node input =
     (input_svm_internal input \<or>
      (special_type node = SHADER_SPECIAL_TYPE_OUTPUT \<and>
        ((input_name input = ''Surface'' \<and> current_type \<noteq> SHADER_TYPE_SURFACE) \<or>
         (input_name input = ''Volume'' \<and> current_type \<noteq> SHADER_TYPE_VOLUME) \<or>
         (input_name input = ''Displacement'' \<and> current_type \<noteq> SHADER_TYPE_DISPLACEMENT) \<or>
         (input_name input = ''Normal'' \<and> current_type \<noteq> SHADER_TYPE_BUMP))) \<or>
      (special_type node = SHADER_SPECIAL_TYPE_BUMP \<and> input_name input = ''Height'') \<or>
      (special_type node \<noteq> SHADER_SPECIAL_TYPE_OUTPUT \<and>
       special_type node \<noteq> SHADER_SPECIAL_TYPE_BUMP \<and>
       current_type = SHADER_TYPE_DISPLACEMENT \<and>
        (case link input of
           None \<Rightarrow> False
         | Some l \<Rightarrow> special_type (graph_node g (output_parent l)) = SHADER_SPECIAL_TYPE_BUMP)))"

text \<open>
  A Bump node (id 1) linked straight into the Displacement input of the Output node (id 0).
\<close>

definition plain_node :: ShaderNode where
  "plain_node =
     \<lparr>special_type = SHADER_SPECIAL_TYPE_NONE, inputs = [],
      node_has_surface_emission = False, node_has_surface_transparent = False,
      node_feature_raytrace = False, node_has_spatial_varying = False,
      node_has_surface_bssrdf = False, node_has_bssrdf_bump = False, node_has_bump = False,
      node_has_attribute_dependency = False, node_has_integrator_dependency = False,
      node_compile_adds = [Loaded None]\<rparr>"

definition socket :: "string \<Rightarrow> node_ptr option \<Rightarrow> ShaderInput" where
  "socket name src =
     \<lparr>input_name = name, input_svm_internal = False,
      link = map_option (\<lambda>p. \<lparr>output_parent = p, output_name = ''Out''\<rparr>) src\<rparr>"

definition output_node :: "node_ptr option \<Rightarrow> node_ptr option \<Rightarrow> node_ptr option \<Rightarrow> ShaderNode" where
  "output_node surface volume displacement =
     plain_node\<lparr>special_type := SHADER_SPECIAL_TYPE_OUTPUT,
       inputs := [socket ''Surface'' surface, socket ''Volume'' volume,
                  socket ''Displacement'' displacement, socket ''Normal'' None]\<rparr>"

definition bump_to_displacement_graph :: ShaderGraph where
  "bump_to_displacement_graph =
     \<lparr>graph_node = (\<lambda>p. if p = 0 then output_node None None (Some 1)
                         else if p = 1 then
                           plain_node\<lparr>special_type := SHADER_SPECIAL_TYPE_BUMP,
                             inputs := [socket ''Height'' None]\<rparr>
                         else plain_node),
      graph_output = 0\<rparr>"

section \<open>Shaders\<close>

text \<open>
  The fields of \<^verbatim>\<open>Shader\<close> (\<^verbatim>\<open>render/shader.h\<close>) that the OSL compiler reads or
  writes. \<open>is_modified\<close> and \<open>reference_count\<close> stand for the results of the
  \<^verbatim>\<open>Node\<close> methods of these names, \<open>displacement_method\<close> for
  \<^verbatim>\<open>get_displacement_method()\<close>. A \<^verbatim>\<open>OSL::ShaderGroupRef\<close> is an option, the empty
  reference being \<open>None\<close>; a group is recorded by its name and by the layers compiled into
  it, each one a call of the virtual \<^verbatim>\<open>ShaderNode::compile\<close> on a node in a context.
\<close>

datatype DisplacementMethod = DISPLACE_BUMP | DISPLACE_TRUE | DISPLACE_BOTH

record ShaderGroup =
  group_name :: string
  group_layers :: "(ShaderType \<times> node_ptr) list"

record Shader =
  name :: string
  graph :: "ShaderGraph option"
  displacement_method :: DisplacementMethod
  is_modified :: bool
  reference_count :: int
  has_surface :: bool
  has_surface_emission :: bool
  has_surface_transparent :: bool
  has_surface_raytrace :: bool
  has_volume :: bool
  has_displacement :: bool
  has_surface_bssrdf :: bool
  has_bump :: bool
  has_bssrdf_bump :: bool
  has_surface_spatial_varying :: bool
  has_volume_spatial_varying :: bool
  has_volume_attribute_dependency :: bool
  has_integrator_dependency :: bool
  osl_surface_ref :: "ShaderGroup option"
  osl_surface_bump_ref :: "ShaderGroup option"
  osl_volume_ref :: "ShaderGroup option"
  osl_displacement_ref :: "ShaderGroup option"

section \<open>Dependencies and generation\<close>

subsection \<open>\<^verbatim>\<open>OSLCompiler::find_dependencies\<close>\<close>

text \<open>
  The recursion of \<^verbatim>\<open>find_dependencies\<close> follows links upstream and does not end on a
  cyclic graph. The first argument bounds its depth: \<open>None\<close> is the answer of a call that
  would go deeper. The set \<^verbatim>\<open>dependencies\<close> is passed in and returned; the loop over the
  inputs of a node is \<open>find_dependencies_inputs\<close>.
\<close>

fun find_dependencies ::
    "nat \<Rightarrow> ShaderType \<Rightarrow> ShaderGraph \<Rightarrow> node_ptr set \<Rightarrow> ShaderInput \<Rightarrow> node_ptr set option"
  and find_dependencies_inputs ::
    "nat \<Rightarrow> ShaderType \<Rightarrow> ShaderGraph \<Rightarrow> ShaderNode \<Rightarrow> node_ptr set \<Rightarrow> ShaderInput list
       \<Rightarrow> node_ptr set option"
where
  "find_dependencies 0 current_type g dependencies input = None"
| "find_dependencies (Suc depth) current_type g dependencies input =
     (case link input of
        None \<Rightarrow> Some dependencies
      | Some l \<Rightarrow>
          (let node = output_parent l in
           if node \<notin> dependencies then
             (case find_dependencies_inputs depth current_type g (graph_node g node) dependencies
                     (inputs (graph_node g node)) of
                None \<Rightarrow> None
              | Some dependencies' \<Rightarrow> Some (insert node dependencies'))
           else Some dependencies))"
| "find_dependencies_inputs depth current_type g node dependencies [] = Some dependencies"
| "find_dependencies_inputs depth current_type g node dependencies (i # rest) =
     (if \<not> node_skip_input current_type g node i then
        (case find_dependencies depth current_type g dependencies i of
           None \<Rightarrow> None
         | Some dependencies' \<Rightarrow>
             find_dependencies_inputs depth current_type g node dependencies' rest)
      else find_dependencies_inputs depth current_type g node dependencies rest)"

subsection \<open>\<^verbatim>\<open>OSLCompiler::generate_nodes\<close>\<close>

text \<open>
  The state of the loops of \<^verbatim>\<open>generate_nodes\<close>: the set \<^verbatim>\<open>done\<close> (here \<open>done_nodes\<close>), the flag
  \<^verbatim>\<open>nodes_done\<close>, the nodes on which \<^verbatim>\<open>node->compile(*this)\<close> was called, in the order
  of the calls, and the shader \<^verbatim>\<open>current_shader\<close> points to.
\<close>

record generate_state =
  done_nodes :: "node_ptr set"
  nodes_done :: bool
  compiled :: "node_ptr list"
  current_shader :: Shader

text \<open>The inner loop over the inputs of a node, computing \<^verbatim>\<open>inputs_done\<close>.\<close>

fun inputs_done ::
  "ShaderType \<Rightarrow> ShaderGraph \<Rightarrow> ShaderNode \<Rightarrow> node_ptr set \<Rightarrow> ShaderInput list \<Rightarrow> bool" where
  "inputs_done current_type g node dn [] = True"
| "inputs_done current_type g node dn (input # rest) =
     (if \<not> node_skip_input current_type g node input \<and>
         (case link input of None \<Rightarrow> False | Some l \<Rightarrow> output_parent l \<notin> dn)
      then False
      else inputs_done current_type g node dn rest)"

text \<open>The flags a compiled node sets on the current shader.\<close>

definition node_flags :: "ShaderType \<Rightarrow> ShaderNode \<Rightarrow> Shader \<Rightarrow> Shader" where
  "node_flags current_type node sh =
     (if current_type = SHADER_TYPE_SURFACE then
        (let s1 = (if node_has_surface_emission node
                   then sh\<lparr>has_surface_emission := True\<rparr> else sh);
             s2 = (if node_has_surface_transparent node
                   then s1\<lparr>has_surface_transparent := True\<rparr> else s1);
             s3 = (if node_feature_raytrace node
                   then s2\<lparr>has_surface_raytrace := True\<rparr> else s2);
             s4 = (if node_has_spatial_varying node
                   then s3\<lparr>has_surface_spatial_varying := True\<rparr> else s3);
             s5 = (if node_has_surface_bssrdf node
                   then (let t = s4\<lparr>has_surface_bssrdf := True\<rparr>
                         in if node_has_bssrdf_bump node then t\<lparr>has_bssrdf_bump := True\<rparr> else t)
                   else s4)
         in if node_has_bump node then s5\<lparr>has_bump := True\<rparr> else s5)
      else if current_type = SHADER_TYPE_VOLUME then
        (if node_has_spatial_varying node then sh\<lparr>has_volume_spatial_varying := True\<rparr> else sh)
      else sh)"

text \<open>
  \<^verbatim>\<open>OSLCompiler::add\<close>, as far as it writes the current shader: the flags it sets after
  the layer was created, and nothing when the file could not be loaded.
\<close>

definition OSLCompiler_add :: "ShaderType \<Rightarrow> ShaderNode \<Rightarrow> add_lookup \<Rightarrow> Shader \<Rightarrow> Shader" where
  "OSLCompiler_add current_type node lookup sh =
     (case lookup of
        Not_loaded \<Rightarrow> sh
      | Loaded info \<Rightarrow>
          (let s1 =
             (if current_type = SHADER_TYPE_SURFACE then
                (let t1 =
                   (case info of
                      None \<Rightarrow> sh
                    | Some i \<Rightarrow>
                        (let u1 = (if info_has_surface_emission i
                                   then sh\<lparr>has_surface_emission := True\<rparr> else sh);
                             u2 = (if info_has_surface_transparent i
                                   then u1\<lparr>has_surface_transparent := True\<rparr> else u1);
                             u3 = (if info_has_surface_bssrdf i
                                   then u2\<lparr>has_surface_bssrdf := True, has_bssrdf_bump := True\<rparr>
                                   else u2)
                         in u3\<lparr>has_bump := True, has_surface_raytrace := True\<rparr>))
                 in if node_has_spatial_varying node
                    then t1\<lparr>has_surface_spatial_varying := True\<rparr> else t1)
              else if current_type = SHADER_TYPE_VOLUME then
                (let t1 = (if node_has_spatial_varying node
                           then sh\<lparr>has_volume_spatial_varying := True\<rparr> else sh)
                 in if node_has_attribute_dependency node
                    then t1\<lparr>has_volume_attribute_dependency := True\<rparr> else t1)
              else sh)
           in if node_has_integrator_dependency node
              then s1\<lparr>has_integrator_dependency := True\<rparr> else s1))"

text \<open>The effect of \<^verbatim>\<open>node->compile(*this)\<close> on the current shader.\<close>

definition compile_node :: "ShaderType \<Rightarrow> ShaderNode \<Rightarrow> Shader \<Rightarrow> Shader" where
  "compile_node current_type node sh =
     fold (OSLCompiler_add current_type node) (node_compile_adds node) sh"

text \<open>One run of the \<^verbatim>\<open>foreach\<close> over the nodes, in the order it visits them.\<close>

fun generate_nodes_pass ::
  "ShaderType \<Rightarrow> ShaderGraph \<Rightarrow> node_ptr list \<Rightarrow> generate_state \<Rightarrow> generate_state" where
  "generate_nodes_pass current_type g [] st = st"
| "generate_nodes_pass current_type g (node # rest) st =
     (if node \<notin> done_nodes st then
        (if inputs_done current_type g (graph_node g node) (done_nodes st)
              (inputs (graph_node g node))
         then generate_nodes_pass current_type g rest
                (st\<lparr>compiled := compiled st @ [node], done_nodes := insert node (done_nodes st),
                    current_shader :=
                      node_flags current_type (graph_node g node)
                        (compile_node current_type (graph_node g node) (current_shader st))\<rparr>)
         else generate_nodes_pass current_type g rest (st\<lparr>nodes_done := False\<rparr>))
      else generate_nodes_pass current_type g rest st)"

text \<open>
  The \<^verbatim>\<open>do ... while (!nodes_done)\<close> loop. It does not end when some node of the set can
  never be compiled; the first argument bounds the number of its runs.
\<close>

fun generate_nodes_loop ::
  "nat \<Rightarrow> ShaderType \<Rightarrow> ShaderGraph \<Rightarrow> node_ptr list \<Rightarrow> generate_state
     \<Rightarrow> generate_state option" where
  "generate_nodes_loop 0 current_type g order st = None"
| "generate_nodes_loop (Suc runs) current_type g order st =
     (let st' = generate_nodes_pass current_type g order (st\<lparr>nodes_done := True\<rparr>)
      in if \<not> nodes_done st' then generate_nodes_loop runs current_type g order st'
         else Some st')"

text \<open>
  \<open>generate_nodes_over\<close> is \<^verbatim>\<open>generate_nodes\<close> for a given order of iteration over the
  set; \<^verbatim>\<open>std::set\<close> with \<^verbatim>\<open>ShaderNodeIDComparator\<close> iterates in the order of the ids.
\<close>

definition generate_nodes_over ::
  "nat \<Rightarrow> ShaderType \<Rightarrow> ShaderGraph \<Rightarrow> node_ptr list \<Rightarrow> Shader \<Rightarrow> generate_state option" where
  "generate_nodes_over runs current_type g order sh =
     generate_nodes_loop runs current_type g order
       \<lparr>done_nodes = {}, nodes_done = True, compiled = [], current_shader = sh\<rparr>"

definition generate_nodes ::
  "nat \<Rightarrow> ShaderType \<Rightarrow> ShaderGraph \<Rightarrow> node_ptr set \<Rightarrow> Shader \<Rightarrow> generate_state option" where
  "generate_nodes runs current_type g nodes sh =
     generate_nodes_over runs current_type g (sorted_list_of_set nodes) sh"

subsection \<open>The relation the two functions follow\<close>

text \<open>
  \<open>(p, n)\<close> is in \<open>dependency_rel\<close> when node \<open>n\<close> has an input that is not skipped in the
  current context and is linked to an output of node \<open>p\<close>.
\<close>

definition dependency_rel :: "ShaderType \<Rightarrow> ShaderGraph \<Rightarrow> (node_ptr \<times> node_ptr) set" where
  "dependency_rel current_type g =
     {(p, n). \<exists>i \<in> set (inputs (graph_node g n)).
        \<not> node_skip_input current_type g (graph_node g n) i \<and>
        (\<exists>l. link i = Some l \<and> output_parent l = p)}"

definition dependency_closed :: "ShaderType \<Rightarrow> ShaderGraph \<Rightarrow> node_ptr set \<Rightarrow> bool" where
  "dependency_closed current_type g S =
     (\<forall>p n. (p, n) \<in> dependency_rel current_type g \<longrightarrow> n \<in> S \<longrightarrow> p \<in> S)"

text \<open>
  \<open>compiled_after_inputs\<close>: every node of the sequence comes after the source node of each of
  its linked inputs that is not skipped.
\<close>

definition compiled_after_inputs :: "ShaderType \<Rightarrow> ShaderGraph \<Rightarrow> node_ptr list \<Rightarrow> bool" where
  "compiled_after_inputs current_type g ns =
     (\<forall>j < length ns. \<forall>p. (p, ns ! j) \<in> dependency_rel current_type g \<longrightarrow>
        (\<exists>i < j. ns ! i = p))"

subsection \<open>Auxiliary notions for the proofs\<close>

text \<open>
  \<open>upstream\<close>: the nodes from which a link path that avoids skipped inputs leads into one of
  the given inputs of a node. \<open>generate_invariant\<close>: what every run of the loops of
  \<^verbatim>\<open>generate_nodes\<close> keeps.
\<close>

definition upstream ::
  "ShaderType \<Rightarrow> ShaderGraph \<Rightarrow> ShaderNode \<Rightarrow> ShaderInput list \<Rightarrow> node_ptr set" where
  "upstream ct g node xs =
     {m. \<exists>i \<in> set xs. \<not> node_skip_input ct g node i \<and>
        (\<exists>l. link i = Some l \<and> (m, output_parent l) \<in> (dependency_rel ct g)\<^sup>*)}"

definition generate_invariant :: "ShaderType \<Rightarrow> ShaderGraph \<Rightarrow> generate_state \<Rightarrow> bool" where
  "generate_invariant ct g st =
     (set (compiled st) = done_nodes st \<and> distinct (compiled st) \<and>
      compiled_after_inputs ct g (compiled st))"

subsection \<open>Example graphs\<close>

text \<open>
  The diamond of the specification: node 1 feeds nodes 2 and 3, which feed node 4, which is
  linked to the Surface input of the Output node 6; node 5 is linked to the Displacement
  input of the Output node only.
\<close>

definition linked_node :: "node_ptr list \<Rightarrow> ShaderNode" where
  "linked_node srcs = plain_node\<lparr>inputs := map (\<lambda>p. socket ''Value'' (Some p)) srcs\<rparr>"

definition diamond_graph :: ShaderGraph where
  "diamond_graph =
     \<lparr>graph_node = (\<lambda>p. if p = 2 then linked_node [1]
                         else if p = 3 then linked_node [1]
                         else if p = 4 then linked_node [2, 3]
                         else if p = 6 then output_node (Some 4) None (Some 5)
                         else plain_node),
      graph_output = 6\<rparr>"

definition blank_shader :: Shader where
  "blank_shader =
     \<lparr>name = ''shader'', graph = None, displacement_method = DISPLACE_BUMP, is_modified = True,
      reference_count = 1, has_surface = False, has_surface_emission = False,
      has_surface_transparent = False, has_surface_raytrace = False, has_volume = False,
      has_displacement = False, has_surface_bssrdf = False, has_bump = False,
      has_bssrdf_bump = False, has_surface_spatial_varying = False,
      has_volume_spatial_varying = False, has_volume_attribute_dependency = False,
      has_integrator_dependency = False, osl_surface_ref = None, osl_surface_bump_ref = None,
      osl_volume_ref = None, osl_displacement_ref = None\<rparr>"

section \<open>The graph compiler\<close>

text \<open>
  A call of the model returns \<open>None\<close> when a loop in it does not end within the bound,
  \<open>Some (Inl e)\<close> when the C++ fails with \<open>e\<close>, and \<open>Some (Inr r)\<close> when it returns.
\<close>

definition bind_result ::
  "(error + 'a) option \<Rightarrow> ('a \<Rightarrow> (error + 'b) option) \<Rightarrow> (error + 'b) option" where
  "bind_result m f = (case m of None \<Rightarrow> None | Some (Inl e) \<Rightarrow> Some (Inl e) | Some (Inr x) \<Rightarrow> f x)"

text \<open>
  \<^verbatim>\<open>ShaderNode::input(name)\<close> returns the input socket of that name, NULL when the node
  has none. \<open>output_linked\<close> is the test \<^verbatim>\<open>output->input(name)->link\<close>.
\<close>

definition node_input :: "ShaderNode \<Rightarrow> string \<Rightarrow> ShaderInput option" where
  "node_input node nm = find (\<lambda>i. input_name i = nm) (inputs node)"

definition output_linked :: "ShaderGraph \<Rightarrow> node_ptr \<Rightarrow> string \<Rightarrow> error + bool" where
  "output_linked g output nm =
     (case node_input (graph_node g output) nm of
        None \<Rightarrow> Inl Null_dereference
      | Some i \<Rightarrow> Inr (link i \<noteq> None))"

text \<open>
  The compiler object: its \<^verbatim>\<open>current_type\<close>, and the groups it has built in the shading
  system between \<^verbatim>\<open>ShaderGroupBegin\<close> and \<^verbatim>\<open>ShaderGroupEnd\<close>. Its \<^verbatim>\<open>current_shader\<close>
  points to the shader that the functions below pass along.
\<close>

record OSLCompiler =
  current_type :: ShaderType
  shader_groups :: "ShaderGroup list"

subsection \<open>\<^verbatim>\<open>OSLCompiler::compile_type\<close>\<close>

definition type_socket :: "ShaderType \<Rightarrow> string" where
  "type_socket type =
     (case type of
        SHADER_TYPE_SURFACE \<Rightarrow> ''Surface''
      | SHADER_TYPE_BUMP \<Rightarrow> ''Normal''
      | SHADER_TYPE_VOLUME \<Rightarrow> ''Volume''
      | SHADER_TYPE_DISPLACEMENT \<Rightarrow> ''Displacement'')"

definition compile_type ::
  "nat \<Rightarrow> OSLCompiler \<Rightarrow> Shader \<Rightarrow> ShaderGraph \<Rightarrow> ShaderType
     \<Rightarrow> (error + ShaderGroup \<times> Shader \<times> OSLCompiler) option" where
  "compile_type fuel c shader g type =
     (let output = graph_output g in
      case node_input (graph_node g output) (type_socket type) of
        None \<Rightarrow> Some (Inl Null_dereference)
      | Some input \<Rightarrow>
          (case find_dependencies fuel type g {} input of
             None \<Rightarrow> None
           | Some dependencies \<Rightarrow>
               (case generate_nodes fuel type g dependencies shader of
                  None \<Rightarrow> None
                | Some st \<Rightarrow>
                    (let group = \<lparr>group_name = name shader,
                                  group_layers = map (Pair type) (compiled st @ [output])\<rparr>
                     in Some (Inr (group,
                          compile_node type (graph_node g output) (current_shader st),
                          c\<lparr>current_type := type,
                            shader_groups := shader_groups c @ [group]\<rparr>))))))"

subsection \<open>\<^verbatim>\<open>OSLCompiler::compile\<close>\<close>

text \<open>
  \<^verbatim>\<open>ShaderGraph::finalize\<close> is not among the sources at hand: it is the parameter
  \<open>finalize\<close>, a function of its three flags and of the graph (the scene is fixed). The
  pointer \<^verbatim>\<open>output\<close> is read before the graph is finalized and dereferenced after.
\<close>

definition compile_has_bump :: "Shader \<Rightarrow> ShaderGraph \<Rightarrow> node_ptr \<Rightarrow> error + bool" where
  "compile_has_bump shader g output =
     (if displacement_method shader \<noteq> DISPLACE_TRUE then
        (case output_linked g output ''Surface'' of
           Inl e \<Rightarrow> Inl e
         | Inr surface \<Rightarrow> if surface then output_linked g output ''Displacement'' else Inr False)
      else Inr False)"

definition compile_surface ::
  "nat \<Rightarrow> bool \<Rightarrow> ShaderGraph \<Rightarrow> node_ptr \<Rightarrow> Shader \<times> OSLCompiler
     \<Rightarrow> (error + Shader \<times> OSLCompiler) option" where
  "compile_surface fuel has_bump_local g output sc =
     (let (shader, c) = sc;
          unlinked = Some (Inr (shader\<lparr>osl_surface_ref := None, osl_surface_bump_ref := None\<rparr>, c))
      in if reference_count shader \<noteq> 0 then
           (case output_linked g output ''Surface'' of
              Inl e \<Rightarrow> Some (Inl e)
            | Inr linked \<Rightarrow>
                if linked then
                  bind_result (compile_type fuel c shader g SHADER_TYPE_SURFACE)
                    (\<lambda>(group, s1, c1).
                       if has_bump_local then
                         bind_result
                           (compile_type fuel c1 (s1\<lparr>osl_surface_ref := Some group\<rparr>) g
                              SHADER_TYPE_BUMP)
                           (\<lambda>(bump_group, s2, c2).
                              Some (Inr (s2\<lparr>osl_surface_bump_ref := Some bump_group,
                                           has_surface := True\<rparr>, c2)))
                       else Some (Inr (s1\<lparr>osl_surface_ref := Some group,
                                          osl_surface_bump_ref := None,
                                          has_surface := True\<rparr>, c1)))
                else unlinked)
         else unlinked)"

definition compile_volume ::
  "nat \<Rightarrow> ShaderGraph \<Rightarrow> node_ptr \<Rightarrow> Shader \<times> OSLCompiler
     \<Rightarrow> (error + Shader \<times> OSLCompiler) option" where
  "compile_volume fuel g output sc =
     (let (shader, c) = sc;
          unlinked = Some (Inr (shader\<lparr>osl_volume_ref := None\<rparr>, c))
      in if reference_count shader \<noteq> 0 then
           (case output_linked g output ''Volume'' of
              Inl e \<Rightarrow> Some (Inl e)
            | Inr linked \<Rightarrow>
                if linked then
                  bind_result (compile_type fuel c shader g SHADER_TYPE_VOLUME)
                    (\<lambda>(group, s1, c1).
                       Some (Inr (s1\<lparr>osl_volume_ref := Some group, has_volume := True\<rparr>, c1)))
                else unlinked)
         else unlinked)"

definition compile_displacement ::
  "nat \<Rightarrow> ShaderGraph \<Rightarrow> node_ptr \<Rightarrow> Shader \<times> OSLCompiler
     \<Rightarrow> (error + Shader \<times> OSLCompiler) option" where
  "compile_displacement fuel g output sc =
     (let (shader, c) = sc;
          unlinked = Some (Inr (shader\<lparr>osl_displacement_ref := None\<rparr>, c))
      in if reference_count shader \<noteq> 0 then
           (case output_linked g output ''Displacement'' of
              Inl e \<Rightarrow> Some (Inl e)
            | Inr linked \<Rightarrow>
                if linked then
                  bind_result (compile_type fuel c shader g SHADER_TYPE_DISPLACEMENT)
                    (\<lambda>(group, s1, c1).
                       Some (Inr (s1\<lparr>osl_displacement_ref := Some group,
                                      has_displacement := True\<rparr>, c1)))
                else unlinked)
         else unlinked)"

definition compile_reset :: "bool \<Rightarrow> ShaderGraph \<Rightarrow> Shader \<Rightarrow> Shader" where
  "compile_reset has_bump_local g shader =
     shader\<lparr>graph := Some g,
       has_surface := False, has_surface_emission := False, has_surface_transparent := False,
       has_surface_bssrdf := False, has_bump := has_bump_local,
       has_bssrdf_bump := has_bump_local, has_volume := False, has_displacement := False,
       has_surface_spatial_varying := False, has_volume_spatial_varying := False,
       has_volume_attribute_dependency := False, has_integrator_dependency := False\<rparr>"

definition compile ::
  "(bool \<Rightarrow> bool \<Rightarrow> bool \<Rightarrow> ShaderGraph \<Rightarrow> ShaderGraph) \<Rightarrow> nat \<Rightarrow> OSLCompiler \<Rightarrow> Shader
     \<Rightarrow> (error + Shader \<times> OSLCompiler) option" where
  "compile finalize fuel c shader =
     (if is_modified shader then
        (case graph shader of
           None \<Rightarrow> Some (Inl Null_dereference)
         | Some g0 \<Rightarrow>
             (let output = graph_output g0 in
              case compile_has_bump shader g0 output of
                Inl e \<Rightarrow> Some (Inl e)
              | Inr has_bump_local \<Rightarrow>
                  (let g = finalize has_bump_local (has_integrator_dependency shader)
                             (displacement_method shader = DISPLACE_BOTH) g0
                   in bind_result
                        (compile_surface fuel has_bump_local g output
                           (compile_reset has_bump_local g shader, c))
                        (\<lambda>sc1. bind_result (compile_volume fuel g output sc1)
                           (compile_displacement fuel g output)))))
      else Some (Inr (shader, c)))"

subsection \<open>Notions for the statements about \<^verbatim>\<open>compile\<close>\<close>

text \<open>
  \<open>untouched\<close>: the fields of a shader that neither \<^verbatim>\<open>add\<close> nor the flag updates of
  \<^verbatim>\<open>generate_nodes\<close> write. \<open>link_rel\<close>: all links of a graph, skipped or not; a graph is
  acyclic when it is well-founded. \<open>compile_type_ok\<close>: \<^verbatim>\<open>compile_type\<close> returns a group
  within the bound. \<open>socket_linked\<close>: the input socket of that name exists and is linked;
  \<open>output_sockets\<close>: the node has the four sockets of an Output node. \<open>result_shader\<close>: the
  shader of a call that returned. The examples: a finalization that leaves the graph as it
  is, a compiler as its constructor leaves it, a graph whose Output node has only its
  Displacement input linked, and shaders on that graph and on the diamond.
\<close>

definition untouched ::
  "Shader \<Rightarrow> (string \<times> ShaderGraph option \<times> DisplacementMethod \<times> bool \<times> int) \<times>
     (bool \<times> bool \<times> bool) \<times>
     (ShaderGroup option \<times> ShaderGroup option \<times> ShaderGroup option \<times> ShaderGroup option)" where
  "untouched sh =
     ((name sh, graph sh, displacement_method sh, is_modified sh, reference_count sh),
      (has_surface sh, has_volume sh, has_displacement sh),
      (osl_surface_ref sh, osl_surface_bump_ref sh, osl_volume_ref sh, osl_displacement_ref sh))"

definition link_rel :: "ShaderGraph \<Rightarrow> (node_ptr \<times> node_ptr) set" where
  "link_rel g =
     {(p, n). \<exists>i \<in> set (inputs (graph_node g n)). \<exists>l. link i = Some l \<and> output_parent l = p}"

definition compile_type_ok :: "nat \<Rightarrow> ShaderGraph \<Rightarrow> ShaderType \<Rightarrow> bool" where
  "compile_type_ok fuel g type =
     (\<forall>c shader. \<exists>group sh'.
        compile_type fuel c shader g type =
          Some (Inr (group, sh',
            c\<lparr>current_type := type, shader_groups := shader_groups c @ [group]\<rparr>)) \<and>
        untouched sh' = untouched shader \<and>
        (type \<noteq> SHADER_TYPE_SURFACE \<longrightarrow> has_bump sh' = has_bump shader))"

definition result_shader :: "(error + Shader \<times> OSLCompiler) option \<Rightarrow> Shader option" where
  "result_shader r = (case r of Some (Inr (sh, c)) \<Rightarrow> Some sh | _ \<Rightarrow> None)"

definition socket_linked :: "ShaderGraph \<Rightarrow> node_ptr \<Rightarrow> string \<Rightarrow> bool" where
  "socket_linked g output nm =
     (case node_input (graph_node g output) nm of None \<Rightarrow> False | Some i \<Rightarrow> link i \<noteq> None)"

definition output_sockets :: "ShaderGraph \<Rightarrow> node_ptr \<Rightarrow> bool" where
  "output_sockets g output =
     (\<forall>nm \<in> set [''Surface'', ''Volume'', ''Displacement'', ''Normal''].
        node_input (graph_node g output) nm \<noteq> None)"

definition finalize_unchanged :: "bool \<Rightarrow> bool \<Rightarrow> bool \<Rightarrow> ShaderGraph \<Rightarrow> ShaderGraph" where
  "finalize_unchanged do_bump do_simplify bump_in_object_space g = g"

definition fresh_compiler :: OSLCompiler where
  "fresh_compiler = \<lparr>current_type = SHADER_TYPE_SURFACE, shader_groups = []\<rparr>"

definition displacement_only_graph :: ShaderGraph where
  "displacement_only_graph =
     \<lparr>graph_node = (\<lambda>p. if p = 2 then output_node None None (Some 1) else plain_node),
      graph_output = 2\<rparr>"

definition displacement_only_shader :: Shader where
  "displacement_only_shader = blank_shader\<lparr>graph := Some displacement_only_graph\<rparr>"

definition unreferenced_shader :: Shader where
  "unreferenced_shader = blank_shader\<lparr>graph := Some diamond_graph, reference_count := 0\<rparr>"

definition diamond_shader :: Shader where
  "diamond_shader = blank_shader\<lparr>graph := Some diamond_graph\<rparr>"

section \<open>Loading shaders from files\<close>

text \<open>
  \<^verbatim>\<open>OSLShaderManager::shader_load_filepath\<close> and the functions it calls. The file system
  is what \<^verbatim>\<open>path_modified_time\<close> and \<^verbatim>\<open>path_read_text\<close> answer; \<^verbatim>\<open>path_modified_time\<close>
  is 0 for a file that does not exist. The functions of \<^verbatim>\<open>util_md5\<close> and \<^verbatim>\<open>util_path\<close>
  are not among the sources at hand and are parameters, collected in \<open>platform\<close>:
  \<open>md5_hex\<close> is the hexadecimal MD5 digest of a byte string, \<open>path_user_get_shaders\<close> is
  \<^verbatim>\<open>path_user_get("shaders")\<close>, and \<open>osl_compile\<close> is what the run of the OSL compiler
  started by \<^verbatim>\<open>OSLShaderManager::osl_compile\<close> does to the files.

  The state is the map \<^verbatim>\<open>loaded_shaders\<close>, the files, the paths given to
  \<^verbatim>\<open>path_read_text\<close> so far (\<open>read_log\<close>) and the shaders given to
  \<^verbatim>\<open>LoadMemoryCompiledShader\<close> so far (\<open>memory_shaders\<close>). A \<^verbatim>\<open>const char *\<close> result is an
  option, NULL being \<open>None\<close>. \<open>uint64_bytes\<close> gives the eight bytes of the modification time
  in the byte order of the machine, taken little-endian. \<open>contains\<close> is
  \<^verbatim>\<open>find(...) != string::npos\<close>. \<open>read_oso\<close> is the end of \<^verbatim>\<open>shader_load_filepath\<close>,
  from the comment "read oso bytecode from file" on, which both branches reach.
  \<open>is_osl\<close>, \<open>oso_path\<close> and \<open>oso_time\<close> name the extension test, the path of the
  \<^verbatim>\<open>.oso\<close> file that a request reads and the modification time that enters its hash.
  The examples: a platform whose digest is the identity and whose compiler writes nothing,
  and files of which \<^verbatim>\<open>a.oso\<close> and \<^verbatim>\<open>c.osl\<close> exist.
\<close>

record file_system =
  path_modified_time :: "string \<Rightarrow> 64 word"
  path_read_text :: "string \<Rightarrow> string option"

record platform =
  md5_hex :: "string \<Rightarrow> string"
  path_dirname :: "string \<Rightarrow> string"
  path_join :: "string \<Rightarrow> string \<Rightarrow> string"
  path_user_get_shaders :: string
  osl_compile :: "string \<Rightarrow> string \<Rightarrow> file_system \<Rightarrow> file_system"

record loader_state =
  loaded_shaders :: "string \<rightharpoonup> OSLShaderInfo"
  files :: file_system
  read_log :: "string list"
  memory_shaders :: "(string \<times> string) list"

definition uint64_bytes :: "64 word \<Rightarrow> string" where
  "uint64_bytes t = map (\<lambda>i. char_of (drop_bit (8 * i) (unat t))) [0..<8]"

definition shader_filepath_hash :: "platform \<Rightarrow> string \<Rightarrow> 64 word \<Rightarrow> string" where
  "shader_filepath_hash P filepath modified_time =
     md5_hex P (filepath @ uint64_bytes modified_time)"

definition shader_test_loaded :: "loader_state \<Rightarrow> string \<Rightarrow> string option" where
  "shader_test_loaded s hash =
     (case loaded_shaders s hash of None \<Rightarrow> None | Some info \<Rightarrow> Some hash)"

definition shader_loaded_info :: "loader_state \<Rightarrow> string \<Rightarrow> OSLShaderInfo option" where
  "shader_loaded_info s hash = loaded_shaders s hash"

fun contains :: "string \<Rightarrow> string \<Rightarrow> bool" where
  "contains pat [] = (pat = [])"
| "contains pat (c # cs) = (take (length pat) (c # cs) = pat \<or> contains pat cs)"

definition quoted :: "string \<Rightarrow> string" where
  "quoted w = CHR 0x22 # w @ [CHR 0x22]"

definition empty_info :: OSLShaderInfo where
  "empty_info =
     \<lparr>query = None, info_has_surface_emission = False, info_has_surface_transparent = False,
      info_has_surface_bssrdf = False\<rparr>"

definition shader_load_bytecode ::
  "string \<Rightarrow> string \<Rightarrow> loader_state \<Rightarrow> string option \<times> loader_state" where
  "shader_load_bytecode hash bytecode s =
     (let info = \<lparr>query = Some bytecode,
                   info_has_surface_emission = contains (quoted ''emission'') bytecode,
                   info_has_surface_transparent = contains (quoted ''transparent'') bytecode,
                   info_has_surface_bssrdf = contains (quoted ''bssrdf'') bytecode\<rparr>;
          s1 = s\<lparr>memory_shaders := memory_shaders s @ [(hash, bytecode)],
                 loaded_shaders := (loaded_shaders s)(hash \<mapsto> info)\<rparr>
      in (shader_test_loaded s1 hash, s1))"

definition read_oso ::
  "platform \<Rightarrow> string \<Rightarrow> 64 word \<Rightarrow> loader_state \<Rightarrow> string option \<times> loader_state" where
  "read_oso P filepath modified_time s =
     (let bytecode_hash = shader_filepath_hash P filepath modified_time;
          s1 = s\<lparr>read_log := read_log s @ [filepath]\<rparr>
      in case path_read_text (files s) filepath of
           None \<Rightarrow> (None, s1\<lparr>loaded_shaders := (loaded_shaders s1)(bytecode_hash \<mapsto> empty_info)\<rparr>)
         | Some bytecode \<Rightarrow> shader_load_bytecode bytecode_hash bytecode s1)"

definition shader_load_filepath ::
  "platform \<Rightarrow> string \<Rightarrow> loader_state \<Rightarrow> error + string option \<times> loader_state" where
  "shader_load_filepath P filepath s =
     (let len = length filepath in
      if len < 4 then Inl Out_of_range
      else
        (let extension = drop (len - 4) filepath;
             modified_time = path_modified_time (files s) filepath
         in if extension = ''.osl'' then
              (let osopath = take (len - 4) filepath @ ''.oso'';
                   oso_modified_time = path_modified_time (files s) osopath
               in case (if oso_modified_time \<noteq> 0
                        then shader_test_loaded s (shader_filepath_hash P osopath oso_modified_time)
                        else None) of
                    Some hash \<Rightarrow> Inr (Some hash, s)
                  | None \<Rightarrow>
                      (if oso_modified_time = 0 \<or> oso_modified_time < modified_time then
                         (let s1 = s\<lparr>files := osl_compile P filepath osopath (files s)\<rparr>
                          in Inr (read_oso P osopath (path_modified_time (files s1) osopath) s1))
                       else Inr (read_oso P osopath oso_modified_time s)))
            else
              (case (if extension = ''.oso'' then Some filepath
                     else if path_dirname P filepath = ''''
                       then Some (path_join P (path_user_get_shaders P) (filepath @ ''.oso''))
                     else None) of
                 None \<Rightarrow> Inr (None, s)
               | Some path \<Rightarrow>
                   (case shader_test_loaded s (shader_filepath_hash P path modified_time) of
                      Some hash \<Rightarrow> Inr (Some hash, s)
                    | None \<Rightarrow> Inr (read_oso P path modified_time s)))))"

definition is_osl :: "string \<Rightarrow> bool" where
  "is_osl filepath = (drop (length filepath - 4) filepath = ''.osl'')"

definition oso_path :: "platform \<Rightarrow> string \<Rightarrow> string" where
  "oso_path P filepath =
     (if is_osl filepath then take (length filepath - 4) filepath @ ''.oso''
      else if drop (length filepath - 4) filepath = ''.oso'' then filepath
      else path_join P (path_user_get_shaders P) (filepath @ ''.oso''))"

definition oso_time :: "platform \<Rightarrow> string \<Rightarrow> file_system \<Rightarrow> 64 word" where
  "oso_time P filepath fs =
     (if is_osl filepath then path_modified_time fs (oso_path P filepath)
      else path_modified_time fs filepath)"

definition example_platform :: platform where
  "example_platform =
     \<lparr>md5_hex = (\<lambda>bytes. bytes),
      path_dirname = (\<lambda>p. if CHR ''/'' \<in> set p then ''/dir'' else []),
      path_join = (\<lambda>a b. a @ ''/'' @ b),
      path_user_get_shaders = ''/shaders'',
      osl_compile = (\<lambda>inputfile outputfile fs. fs)\<rparr>"

definition example_files :: file_system where
  "example_files =
     \<lparr>path_modified_time = (\<lambda>p. if p = ''a.oso'' then 7 else if p = ''c.osl'' then 5 else 0),
      path_read_text = (\<lambda>p. if p = ''a.oso'' then Some ''OpenShadingLanguage 1.00''
                              else if p = ''c.osl'' then Some ''shader c() {}'' else None)\<rparr>"

definition example_loader :: loader_state where
  "example_loader =
     \<lparr>loaded_shaders = Map.empty, files = example_files, read_log = [], memory_shaders = []\<rparr>"

definition a_hash :: string where
  "a_hash = shader_filepath_hash example_platform ''a.oso'' 7"

definition loader_with_a :: loader_state where
  "loader_with_a =
     example_loader
       \<lparr>read_log := [''a.oso''],
        memory_shaders := [(a_hash, ''OpenShadingLanguage 1.00'')],
        loaded_shaders :=
          [a_hash \<mapsto> \<lparr>query = Some ''OpenShadingLanguage 1.00'',
             info_has_surface_emission = False, info_has_surface_transparent = False,
             info_has_surface_bssrdf = False\<rparr>]\<rparr>"

definition b_hash :: string where
  "b_hash = shader_filepath_hash example_platform ''b.oso'' 0"

definition loader_without_b :: loader_state where
  "loader_without_b =
     example_loader\<lparr>read_log := [''b.oso''], loaded_shaders := [b_hash \<mapsto> empty_info]\<rparr>"

text \<open>
  \<open>answered_from_cache\<close>: the request finds its hash in \<^verbatim>\<open>loaded_shaders\<close> and returns
  before any file is read; for a \<^verbatim>\<open>.osl\<close> path the map is consulted only when the
  \<^verbatim>\<open>.oso\<close> file has a modification time other than 0. \<open>files_when_read\<close>: the files at
  the moment the \<^verbatim>\<open>.oso\<close> file is read, after the run of the OSL compiler when there is
  one. Further examples: files in which \<^verbatim>\<open>x.oso\<close> can be read and has the modification
  time 0.
\<close>

definition answered_from_cache :: "platform \<Rightarrow> string \<Rightarrow> loader_state \<Rightarrow> bool" where
  "answered_from_cache P filepath s =
     (if is_osl filepath then
        path_modified_time (files s) (oso_path P filepath) \<noteq> 0 \<and>
        loaded_shaders s (shader_filepath_hash P (oso_path P filepath)
          (path_modified_time (files s) (oso_path P filepath))) \<noteq> None
      else
        loaded_shaders s (shader_filepath_hash P (oso_path P filepath)
          (path_modified_time (files s) filepath)) \<noteq> None)"

definition files_when_read :: "platform \<Rightarrow> string \<Rightarrow> loader_state \<Rightarrow> file_system" where
  "files_when_read P filepath s =
     (if is_osl filepath \<and>
         (path_modified_time (files s) (oso_path P filepath) = 0 \<or>
          path_modified_time (files s) (oso_path P filepath)
            < path_modified_time (files s) filepath)
      then osl_compile P filepath (oso_path P filepath) (files s)
      else files s)"

definition epoch_files :: file_system where
  "epoch_files =
     \<lparr>path_modified_time = (\<lambda>p. if p = ''x.osl'' then 5 else 0),
      path_read_text = (\<lambda>p. if p = ''x.oso'' then Some ''OpenShadingLanguage 1.00''
                              else if p = ''x.osl'' then Some ''shader x() {}'' else None)\<rparr>"

definition epoch_loader :: loader_state where
  "epoch_loader =
     \<lparr>loaded_shaders = Map.empty, files = epoch_files, read_log = [], memory_shaders = []\<rparr>"

definition x_hash :: string where
  "x_hash = shader_filepath_hash example_platform ''x.oso'' 0"

section \<open>Reference counting of the shared instances\<close>

lemma sint_succ:
  fixes w :: "32 word"
  assumes "sint w \<noteq> INT_MAX"
  shows "sint (w + 1) = sint w + 1"
proof -
  have "sint w < 2 ^ 31" "- (2 ^ 31) \<le> sint w"
    using sint_lt [of w] sint_ge [of w] by simp_all
  with assms have "- (2 ^ 31) \<le> sint w + 1" "sint w + 1 < 2 ^ 31"
    by (simp_all add: INT_MAX_def)
  then have "signed_take_bit 31 (sint w + 1) = sint w + 1"
    by (simp add: signed_take_bit_int_eq_self)
  then show ?thesis
    by (simp add: sint_word_ariths)
qed

lemma sint_pred:
  fixes w :: "32 word"
  assumes "sint w \<noteq> INT_MIN"
  shows "sint (w - 1) = sint w - 1"
proof -
  have "sint w < 2 ^ 31" "- (2 ^ 31) \<le> sint w"
    using sint_lt [of w] sint_ge [of w] by simp_all
  with assms have "- (2 ^ 31) \<le> sint w - 1" "sint w - 1 < 2 ^ 31"
    by (simp_all add: INT_MIN_def)
  then have "signed_take_bit 31 (sint w - 1) = sint w - 1"
    by (simp add: signed_take_bit_int_eq_self)
  then show ?thesis
    by (simp add: sint_word_ariths)
qed

lemma texture_system_init_users:
  "ts_shared_users (fst (texture_system_init (g, m))) = ts_shared_users g + 1"
  by (simp add: texture_system_init_def Let_def)

lemma texture_system_init_shared:
  "ts_shared (fst (texture_system_init (g, m))) =
     (if ts_shared_users g = 0 then Some new_texture_system else ts_shared g)"
  by (simp add: texture_system_init_def Let_def)

lemma texture_system_init_invariant:
  assumes "ts_invariant g" and "sint (ts_shared_users g) \<noteq> INT_MAX"
  shows "ts_invariant (fst (texture_system_init (g, m)))"
proof (cases "ts_shared_users g = 0")
  case True
  then show ?thesis
    by (simp add: ts_invariant_def texture_system_init_def Let_def)
next
  case False
  then have "sint (ts_shared_users g) \<noteq> 0"
    by (simp add: signed_eq_0_iff)
  with assms False show ?thesis
    by (auto simp add: ts_invariant_def texture_system_init_def Let_def sint_succ)
qed

lemma texture_system_free_result:
  assumes "ts_invariant g" and "sint (ts_shared_users g) \<noteq> INT_MIN"
  shows "\<exists>g' m'. texture_system_free (g, m) = Inr (g', m') \<and>
           ts_shared_users g' = ts_shared_users g - 1 \<and>
           ts_shared g' = (if ts_shared_users g - 1 = 0 then None else ts_shared g) \<and>
           ts_invariant g'"
proof (cases "ts_shared_users g - 1 = 0")
  case True
  then have "sint (ts_shared_users g - 1) = 0"
    by simp
  with assms have "sint (ts_shared_users g) = 1"
    by (simp add: sint_pred)
  with assms obtain t where "ts_shared g = Some t"
    by (auto simp add: ts_invariant_def)
  with True show ?thesis
    by (simp add: texture_system_free_def Let_def ts_invariant_def)
next
  case False
  then have "sint (ts_shared_users g - 1) \<noteq> 0"
    by (simp add: signed_eq_0_iff)
  with assms False show ?thesis
    by (auto simp add: texture_system_free_def Let_def ts_invariant_def sint_pred)
qed

lemma shading_system_init_users:
  "ss_shared_users (fst (shading_system_init p (g, m))) = ss_shared_users g + 1"
  by (simp add: shading_system_init_def Let_def)

lemma shading_system_init_shared:
  "ss_shared (fst (shading_system_init p (g, m))) =
     (if ss_shared_users g = 0
      then Some (new_shading_system p \<lparr>services_texture_system = ts_shared g\<rparr> (ts_shared g))
      else ss_shared g)"
  by (simp add: shading_system_init_def Let_def)

lemma shading_system_init_invariant:
  assumes "ss_invariant g" and "sint (ss_shared_users g) \<noteq> INT_MAX"
  shows "ss_invariant (fst (shading_system_init p (g, m)))"
proof (cases "ss_shared_users g = 0")
  case True
  then show ?thesis
    by (simp add: ss_invariant_def shading_system_init_def Let_def)
next
  case False
  then have "sint (ss_shared_users g) \<noteq> 0"
    by (simp add: signed_eq_0_iff)
  with assms False show ?thesis
    by (auto simp add: ss_invariant_def shading_system_init_def Let_def sint_succ)
qed

lemma shading_system_free_users:
  "ss_shared_users (fst (shading_system_free (g, m))) = ss_shared_users g - 1"
  by (simp add: shading_system_free_def Let_def)

lemma shading_system_free_shared:
  "ss_shared (fst (shading_system_free (g, m))) =
     (if ss_shared_users g - 1 = 0 then None else ss_shared g)"
  by (simp add: shading_system_free_def Let_def)

lemma shading_system_free_invariant:
  assumes "ss_invariant g" and "sint (ss_shared_users g) \<noteq> INT_MIN"
  shows "ss_invariant (fst (shading_system_free (g, m)))"
proof (cases "ss_shared_users g - 1 = 0")
  case True
  then show ?thesis
    by (simp add: ss_invariant_def shading_system_free_def Let_def)
next
  case False
  then have "sint (ss_shared_users g - 1) \<noteq> 0"
    by (simp add: signed_eq_0_iff)
  with assms False show ?thesis
    by (auto simp add: ss_invariant_def shading_system_free_def Let_def sint_pred)
qed

text \<open>
  Claim C9. The shared texture system and the shared shading system are reference counted.
  \<^verbatim>\<open>texture_system_init\<close> and \<^verbatim>\<open>shading_system_init\<close> construct the shared instance only
  when the user count is zero and always increment the count; \<^verbatim>\<open>texture_system_free\<close> and
  \<^verbatim>\<open>shading_system_free\<close> always decrement the count and destroy the shared instance only
  when the count reaches zero; each of the four preserves the invariant that the shared
  instance is non-NULL exactly when its user count is positive. The counters are C++
  \<^verbatim>\<open>int\<close>s: the increment is taken below \<^verbatim>\<open>INT_MAX\<close> and the decrement above
  \<^verbatim>\<open>INT_MIN\<close>, where the C++ arithmetic is defined.
\<close>

theorem shared_instances_reference_counted:
  assumes "ts_invariant g" and "ss_invariant g"
    and "sint (ts_shared_users g) \<noteq> INT_MAX" and "sint (ts_shared_users g) \<noteq> INT_MIN"
    and "sint (ss_shared_users g) \<noteq> INT_MAX" and "sint (ss_shared_users g) \<noteq> INT_MIN"
  shows "ts_shared_users (fst (texture_system_init (g, m))) = ts_shared_users g + 1 \<and>
         ts_shared (fst (texture_system_init (g, m))) =
           (if ts_shared_users g = 0 then Some new_texture_system else ts_shared g) \<and>
         ts_invariant (fst (texture_system_init (g, m))) \<and>
         (\<exists>g' m'. texture_system_free (g, m) = Inr (g', m') \<and>
            ts_shared_users g' = ts_shared_users g - 1 \<and>
            ts_shared g' = (if ts_shared_users g - 1 = 0 then None else ts_shared g) \<and>
            ts_invariant g') \<and>
         ss_shared_users (fst (shading_system_init p (g, m))) = ss_shared_users g + 1 \<and>
         ss_shared (fst (shading_system_init p (g, m))) =
           (if ss_shared_users g = 0
            then Some (new_shading_system p \<lparr>services_texture_system = ts_shared g\<rparr> (ts_shared g))
            else ss_shared g) \<and>
         ss_invariant (fst (shading_system_init p (g, m))) \<and>
         ss_shared_users (fst (shading_system_free (g, m))) = ss_shared_users g - 1 \<and>
         ss_shared (fst (shading_system_free (g, m))) =
           (if ss_shared_users g - 1 = 0 then None else ss_shared g) \<and>
         ss_invariant (fst (shading_system_free (g, m)))"
  using assms
  by (simp only: texture_system_init_users texture_system_init_shared
      texture_system_init_invariant texture_system_free_result
      shading_system_init_users shading_system_init_shared shading_system_init_invariant
      shading_system_free_users shading_system_free_shared shading_system_free_invariant
      simp_thms)

theorem shared_instances_reference_counted_witness:
  "ts_invariant example_globals \<and> ss_invariant example_globals \<and>
   sint (ts_shared_users example_globals) \<noteq> INT_MAX \<and>
   sint (ts_shared_users example_globals) \<noteq> INT_MIN \<and>
   sint (ss_shared_users example_globals) \<noteq> INT_MAX \<and>
   sint (ss_shared_users example_globals) \<noteq> INT_MIN \<and>
   ts_shared_users (fst (texture_system_init (example_globals, example_manager))) = 2 \<and>
   ts_invariant (fst (texture_system_init (example_globals, example_manager))) \<and>
   (\<exists>g' m'. texture_system_free (example_globals, example_manager) = Inr (g', m') \<and>
      ts_shared_users g' = 0 \<and> ts_shared g' = None \<and> ts_invariant g') \<and>
   ss_shared_users (fst (shading_system_free (example_globals, example_manager))) = 1 \<and>
   ss_shared (fst (shading_system_free (example_globals, example_manager))) =
     ss_shared example_globals \<and>
   ss_invariant (fst (shading_system_free (example_globals, example_manager)))"
proof -
  have h1: "ts_invariant example_globals"
    by (simp add: ts_invariant_def example_globals_def)
  have h2: "ss_invariant example_globals"
    by (simp add: ss_invariant_def example_globals_def)
  have h3: "sint (ts_shared_users example_globals) \<noteq> INT_MAX"
    by (simp add: example_globals_def INT_MAX_def)
  have h4: "sint (ts_shared_users example_globals) \<noteq> INT_MIN"
    by (simp add: example_globals_def INT_MIN_def)
  have h5: "sint (ss_shared_users example_globals) \<noteq> INT_MAX"
    by (simp add: example_globals_def INT_MAX_def)
  have h6: "sint (ss_shared_users example_globals) \<noteq> INT_MIN"
    by (simp add: example_globals_def INT_MIN_def)
  have u: "ts_shared_users example_globals = 1" "ss_shared_users example_globals = 2"
    by (simp_all add: example_globals_def)
  show ?thesis
    using shared_instances_reference_counted [OF h1 h2 h3 h4 h5 h6, of example_manager "''shader''"]
      h1 h2 h3 h4 h5 h6
    by (simp add: u)
qed

section \<open>The skip rules of \<^verbatim>\<open>node_skip_input\<close>\<close>

text \<open>
  Claim C1, as stated: \<^verbatim>\<open>node_skip_input\<close> returns true exactly when one of the four
  rules of the specification applies, rule (4) for any node. This fails for the Output node
  in the Displacement context when its Displacement input is linked from a Bump node: rule
  (4) applies, and the code returns false, because the Output branch of the
  \<^verbatim>\<open>else if\<close> chain was taken.
\<close>

theorem node_skip_input_spec_counterexample:
  "spec_skip_rules SHADER_TYPE_DISPLACEMENT bump_to_displacement_graph
     (graph_node bump_to_displacement_graph 0) (socket ''Displacement'' (Some 1)) \<and>
   \<not> node_skip_input SHADER_TYPE_DISPLACEMENT bump_to_displacement_graph
     (graph_node bump_to_displacement_graph 0) (socket ''Displacement'' (Some 1))"
  by (simp add: spec_skip_rules_def node_skip_input_def bump_to_displacement_graph_def
      output_node_def plain_node_def socket_def)

text \<open>
  Claim C1, amended: \<^verbatim>\<open>node_skip_input\<close> returns true exactly when (1) the input is
  flagged internal-only, or (2) the node is the Output node and the input is named
  Surface, Volume, Displacement or Normal while the context is not, respectively, Surface,
  Volume, Displacement or Bump, or (3) the node is a Bump node and the input is named
  Height, or (4) the node is neither the Output node nor a Bump node, the context is
  Displacement and the source node of the input's link is a Bump node.
\<close>

theorem node_skip_input_rules:
  "node_skip_input ct g node input = code_skip_rules ct g node input"
  by (auto simp add: node_skip_input_def code_skip_rules_def)

theorem node_skip_input_rules_witness:
  "node_skip_input SHADER_TYPE_SURFACE bump_to_displacement_graph
     (graph_node bump_to_displacement_graph 0) (socket ''Displacement'' (Some 1)) \<and>
   code_skip_rules SHADER_TYPE_SURFACE bump_to_displacement_graph
     (graph_node bump_to_displacement_graph 0) (socket ''Displacement'' (Some 1))"
  using node_skip_input_rules [of SHADER_TYPE_SURFACE bump_to_displacement_graph
      "graph_node bump_to_displacement_graph 0" "socket ''Displacement'' (Some 1)"]
  by (simp add: code_skip_rules_def bump_to_displacement_graph_def output_node_def
      plain_node_def socket_def)

section \<open>Properties of \<^verbatim>\<open>find_dependencies\<close> and \<^verbatim>\<open>generate_nodes\<close>\<close>

lemma inputs_done_all:
  "inputs_done ct g node dn xs =
     (\<forall>i \<in> set xs. \<not> node_skip_input ct g node i \<longrightarrow>
        (\<forall>l. link i = Some l \<longrightarrow> output_parent l \<in> dn))"
  by (induction xs) (auto split: option.splits)

lemma inputs_done_iff:
  "inputs_done ct g (graph_node g n) dn (inputs (graph_node g n)) =
     (\<forall>p. (p, n) \<in> dependency_rel ct g \<longrightarrow> p \<in> dn)"
  by (auto simp add: inputs_done_all dependency_rel_def)

lemma find_dependencies_sound:
  "find_dependencies k ct g deps input = Some deps' \<Longrightarrow> dependency_closed ct g deps \<Longrightarrow>
     dependency_closed ct g deps' \<and> deps \<subseteq> deps' \<and>
     (\<forall>l. link input = Some l \<longrightarrow> output_parent l \<in> deps') \<and>
     deps' \<subseteq> deps \<union> {m. \<exists>l. link input = Some l \<and> (m, output_parent l) \<in> (dependency_rel ct g)\<^sup>*}"
  and find_dependencies_inputs_sound:
  "find_dependencies_inputs k ct g node deps xs = Some deps' \<Longrightarrow> dependency_closed ct g deps \<Longrightarrow>
     dependency_closed ct g deps' \<and> deps \<subseteq> deps' \<and>
     (\<forall>i \<in> set xs. \<not> node_skip_input ct g node i \<longrightarrow>
        (\<forall>l. link i = Some l \<longrightarrow> output_parent l \<in> deps')) \<and>
     deps' \<subseteq> deps \<union> upstream ct g node xs"
proof (induction k ct g deps input and k ct g node deps xs arbitrary: deps' and deps'
    rule: find_dependencies_find_dependencies_inputs.induct)
  case (1 ct g deps input)
  then show ?case by simp
next
  case (2 depth ct g deps input)
  show ?case
  proof (cases "link input")
    case None
    with 2 show ?thesis by simp
  next
    case (Some l)
    let ?n = "output_parent l"
    show ?thesis
    proof (cases "?n \<in> deps")
      case True
      with 2 Some show ?thesis by simp
    next
      case False
      with 2(2) Some obtain d where
        d: "find_dependencies_inputs depth ct g (graph_node g ?n) deps (inputs (graph_node g ?n)) = Some d"
        and deps': "deps' = insert ?n d"
        by (auto simp add: Let_def split: option.splits)
      from 2(1) [OF Some refl False d 2(3)]
      have cl: "dependency_closed ct g d" and sub: "deps \<subseteq> d"
        and ins: "\<forall>i \<in> set (inputs (graph_node g ?n)). \<not> node_skip_input ct g (graph_node g ?n) i \<longrightarrow>
            (\<forall>l. link i = Some l \<longrightarrow> output_parent l \<in> d)"
        and up: "d \<subseteq> deps \<union> upstream ct g (graph_node g ?n) (inputs (graph_node g ?n))"
        by blast+
      have "dependency_closed ct g (insert ?n d)"
        unfolding dependency_closed_def
      proof (intro allI impI)
        fix p n assume pn: "(p, n) \<in> dependency_rel ct g" and n: "n \<in> insert ?n d"
        show "p \<in> insert ?n d"
        proof (cases "n = ?n")
          case True
          with pn ins show ?thesis by (auto simp add: dependency_rel_def)
        next
          case False
          with n cl pn show ?thesis by (auto simp add: dependency_closed_def)
        qed
      qed
      moreover have "upstream ct g (graph_node g ?n) (inputs (graph_node g ?n))
          \<subseteq> {m. (m, ?n) \<in> (dependency_rel ct g)\<^sup>*}"
      proof
        fix m assume "m \<in> upstream ct g (graph_node g ?n) (inputs (graph_node g ?n))"
        then obtain i l' where i: "i \<in> set (inputs (graph_node g ?n))"
          "\<not> node_skip_input ct g (graph_node g ?n) i" "link i = Some l'"
          "(m, output_parent l') \<in> (dependency_rel ct g)\<^sup>*"
          by (auto simp add: upstream_def)
        then have "(output_parent l', ?n) \<in> dependency_rel ct g"
          by (auto simp add: dependency_rel_def)
        with i(4) show "m \<in> {m. (m, ?n) \<in> (dependency_rel ct g)\<^sup>*}"
          by (simp add: rtrancl_into_rtrancl)
      qed
      ultimately show ?thesis
        using sub up Some deps' by auto
    qed
  qed
next
  case (3 depth ct g node deps)
  then show ?case by simp
next
  case (4 depth ct g node deps i rest)
  show ?case
  proof (cases "node_skip_input ct g node i")
    case True
    with "4.prems"(1) have "find_dependencies_inputs depth ct g node deps rest = Some deps'"
      by simp
    from "4.IH"(3) [OF _ this "4.prems"(2)] True show ?thesis
      by (auto simp add: upstream_def)
  next
    case False
    with "4.prems"(1) obtain d where d: "find_dependencies depth ct g deps i = Some d"
      and r: "find_dependencies_inputs depth ct g node d rest = Some deps'"
      by (auto split: option.splits)
    from "4.IH"(1) [OF False d "4.prems"(2)]
    have cl: "dependency_closed ct g d" and sub: "deps \<subseteq> d"
      and li: "\<forall>l. link i = Some l \<longrightarrow> output_parent l \<in> d"
      and up: "d \<subseteq> deps \<union> {m. \<exists>l. link i = Some l \<and> (m, output_parent l) \<in> (dependency_rel ct g)\<^sup>*}"
      by blast+
    from "4.IH"(2) [OF False d r cl]
    have cl': "dependency_closed ct g deps'" and sub': "d \<subseteq> deps'"
      and ins: "\<forall>i \<in> set rest. \<not> node_skip_input ct g node i \<longrightarrow>
            (\<forall>l. link i = Some l \<longrightarrow> output_parent l \<in> deps')"
      and up': "deps' \<subseteq> d \<union> upstream ct g node rest"
      by blast+
    have "deps' \<subseteq> deps \<union> upstream ct g node (i # rest)"
      using up up' False by (auto simp add: upstream_def)
    with cl' sub sub' li ins show ?thesis
      by auto
  qed
qed

lemma find_dependencies_finite:
  "find_dependencies k ct g deps input = Some deps' \<Longrightarrow> finite deps \<Longrightarrow> finite deps'"
  and "find_dependencies_inputs k ct g node deps xs = Some deps' \<Longrightarrow> finite deps \<Longrightarrow> finite deps'"
  by (induction k ct g deps input and k ct g node deps xs arbitrary: deps' and deps'
      rule: find_dependencies_find_dependencies_inputs.induct)
    (auto simp add: Let_def split: option.splits if_splits)

lemma find_dependencies_inputs_returns:
  assumes "\<And>i l deps. i \<in> set xs \<Longrightarrow> \<not> node_skip_input ct g node i \<Longrightarrow> link i = Some l \<Longrightarrow>
      find_dependencies k ct g deps i \<noteq> None"
    and "0 < k"
  shows "find_dependencies_inputs k ct g node deps xs \<noteq> None"
  using assms
proof (induction xs arbitrary: deps)
  case Nil
  then show ?case by simp
next
  case (Cons i rest)
  show ?case
  proof (cases "node_skip_input ct g node i")
    case True
    with Cons show ?thesis by simp
  next
    case False
    have "find_dependencies k ct g deps i \<noteq> None"
    proof (cases "link i")
      case None
      with \<open>0 < k\<close> show ?thesis by (cases k) simp_all
    next
      case (Some l)
      with Cons.prems(1) False show ?thesis by simp
    qed
    then obtain d where "find_dependencies k ct g deps i = Some d"
      by blast
    with False Cons show ?thesis by simp
  qed
qed

lemma find_dependencies_returns:
  assumes "wf (dependency_rel ct g)"
  shows "\<exists>k0. \<forall>k\<ge>k0. \<forall>deps input.
           (\<forall>l. link input = Some l \<longrightarrow> output_parent l = n) \<longrightarrow>
           find_dependencies k ct g deps input \<noteq> None"
  using assms
proof (induction n rule: wf_induct_rule)
  case (less n)
  then have "\<forall>p. \<exists>k0. (p, n) \<in> dependency_rel ct g \<longrightarrow>
      (\<forall>k\<ge>k0. \<forall>deps input. (\<forall>l. link input = Some l \<longrightarrow> output_parent l = p) \<longrightarrow>
           find_dependencies k ct g deps input \<noteq> None)"
    by blast
  then obtain f where f: "\<And>p k deps input. (p, n) \<in> dependency_rel ct g \<Longrightarrow> f p \<le> k \<Longrightarrow>
      (\<forall>l. link input = Some l \<longrightarrow> output_parent l = p) \<Longrightarrow>
      find_dependencies k ct g deps input \<noteq> None"
    by metis
  define bound where
    "bound = Suc (sum_list (map (\<lambda>i. case link i of None \<Rightarrow> 0 | Some l \<Rightarrow> f (output_parent l))
       (inputs (graph_node g n))))"
  have inner: "find_dependencies_inputs k ct g (graph_node g n) deps (inputs (graph_node g n)) \<noteq> None"
    if "bound \<le> k" for k deps
  proof (rule find_dependencies_inputs_returns)
    show "0 < k" using that by (simp add: bound_def)
  next
    fix i l d
    assume i: "i \<in> set (inputs (graph_node g n))"
      and ns: "\<not> node_skip_input ct g (graph_node g n) i" and l: "link i = Some l"
    then have rel: "(output_parent l, n) \<in> dependency_rel ct g"
      by (auto simp add: dependency_rel_def)
    have "(case link i of None \<Rightarrow> 0 | Some l \<Rightarrow> f (output_parent l))
        \<le> sum_list (map (\<lambda>i. case link i of None \<Rightarrow> 0 | Some l \<Rightarrow> f (output_parent l))
             (inputs (graph_node g n)))"
      using i by (intro member_le_sum_list) simp_all
    with l that have "f (output_parent l) \<le> k"
      by (simp add: bound_def)
    from f [OF rel this] l show "find_dependencies k ct g d i \<noteq> None"
      by simp
  qed
  have "find_dependencies k ct g deps input \<noteq> None"
    if k: "Suc bound \<le> k" and src: "\<forall>l. link input = Some l \<longrightarrow> output_parent l = n"
    for k deps input
  proof -
    from k obtain k' where k': "k = Suc k'" "bound \<le> k'"
      by (cases k) simp_all
    show ?thesis
    proof (cases "link input")
      case None
      with k' show ?thesis by simp
    next
      case (Some l)
      with src have "output_parent l = n" by simp
      with Some k' inner [OF k'(2), of deps] show ?thesis
        by (auto simp add: Let_def split: option.splits)
    qed
  qed
  then show ?case by blast
qed

lemma pass_done_mono:
  "done_nodes st \<subseteq> done_nodes (generate_nodes_pass ct g xs st)"
proof (induction xs arbitrary: st)
  case Nil
  then show ?case by simp
next
  case (Cons n rest)
  show ?case
    using Cons [of st] Cons [of "st\<lparr>nodes_done := False\<rparr>"]
      Cons [of "st\<lparr>compiled := compiled st @ [n], done_nodes := insert n (done_nodes st),
        current_shader := node_flags ct (graph_node g n)
          (compile_node ct (graph_node g n) (current_shader st))\<rparr>"]
    by auto
qed

lemma pass_done_upper:
  "done_nodes (generate_nodes_pass ct g xs st) \<subseteq> done_nodes st \<union> set xs"
proof (induction xs arbitrary: st)
  case Nil
  then show ?case by simp
next
  case (Cons n rest)
  show ?case
    using Cons [of st] Cons [of "st\<lparr>nodes_done := False\<rparr>"]
      Cons [of "st\<lparr>compiled := compiled st @ [n], done_nodes := insert n (done_nodes st),
        current_shader := node_flags ct (graph_node g n)
          (compile_node ct (graph_node g n) (current_shader st))\<rparr>"]
    by auto
qed

lemma pass_nodes_done:
  "distinct xs \<Longrightarrow>
   nodes_done (generate_nodes_pass ct g xs st) =
     (nodes_done st \<and> set xs \<subseteq> done_nodes (generate_nodes_pass ct g xs st))"
proof (induction xs arbitrary: st)
  case Nil
  then show ?case by simp
next
  case (Cons n rest)
  then have d: "distinct rest" and n: "n \<notin> set rest"
    by simp_all
  show ?case
  proof (cases "n \<in> done_nodes st")
    case True
    with Cons.IH [OF d, of st] pass_done_mono [of st ct g rest] show ?thesis
      by auto
  next
    case False
    show ?thesis
    proof (cases "inputs_done ct g (graph_node g n) (done_nodes st) (inputs (graph_node g n))")
      case True
      let ?st = "st\<lparr>compiled := compiled st @ [n], done_nodes := insert n (done_nodes st),
        current_shader := node_flags ct (graph_node g n)
          (compile_node ct (graph_node g n) (current_shader st))\<rparr>"
      from Cons.IH [OF d, of ?st] pass_done_mono [of ?st ct g rest] True False show ?thesis
        by auto
    next
      case nr: False
      let ?st = "st\<lparr>nodes_done := False\<rparr>"
      have "n \<notin> done_nodes (generate_nodes_pass ct g rest ?st)"
        using pass_done_upper [of ct g rest ?st] False n by auto
      with Cons.IH [OF d, of ?st] nr False show ?thesis
        by auto
    qed
  qed
qed

lemma compiled_after_inputs_snoc:
  assumes "compiled_after_inputs ct g ns"
    and "\<forall>p. (p, n) \<in> dependency_rel ct g \<longrightarrow> p \<in> set ns"
  shows "compiled_after_inputs ct g (ns @ [n])"
  unfolding compiled_after_inputs_def
proof (intro allI impI)
  fix j p
  assume j: "j < length (ns @ [n])" and p: "(p, (ns @ [n]) ! j) \<in> dependency_rel ct g"
  show "\<exists>i<j. (ns @ [n]) ! i = p"
  proof (cases "j < length ns")
    case True
    then have "(ns @ [n]) ! j = ns ! j"
      by (simp add: nth_append)
    with p have "(p, ns ! j) \<in> dependency_rel ct g"
      by simp
    with assms(1) True obtain i where i: "i < j" "ns ! i = p"
      unfolding compiled_after_inputs_def by blast
    with True have "(ns @ [n]) ! i = ns ! i"
      by (simp add: nth_append)
    with i show ?thesis
      by auto
  next
    case False
    with j have jl: "j = length ns" by simp
    then have "(ns @ [n]) ! j = n"
      by simp
    with p assms(2) have "p \<in> set ns" by simp
    then obtain i where i: "i < length ns" "ns ! i = p"
      unfolding in_set_conv_nth by blast
    then have "(ns @ [n]) ! i = ns ! i"
      by (simp add: nth_append)
    with i jl show ?thesis
      by auto
  qed
qed

lemma pass_invariant:
  "generate_invariant ct g st \<Longrightarrow> generate_invariant ct g (generate_nodes_pass ct g xs st)"
proof (induction xs arbitrary: st)
  case Nil
  then show ?case by simp
next
  case (Cons n rest)
  show ?case
  proof (cases "n \<notin> done_nodes st \<and>
      inputs_done ct g (graph_node g n) (done_nodes st) (inputs (graph_node g n))")
    case True
    let ?st = "st\<lparr>compiled := compiled st @ [n], done_nodes := insert n (done_nodes st),
        current_shader := node_flags ct (graph_node g n)
          (compile_node ct (graph_node g n) (current_shader st))\<rparr>"
    from True Cons.prems have "\<forall>p. (p, n) \<in> dependency_rel ct g \<longrightarrow> p \<in> set (compiled st)"
      by (simp add: inputs_done_iff generate_invariant_def)
    with Cons.prems True have "generate_invariant ct g ?st"
      by (simp add: generate_invariant_def compiled_after_inputs_snoc)
    from Cons.IH [OF this] True show ?thesis by simp
  next
    case False
    from Cons.prems have "generate_invariant ct g (st\<lparr>nodes_done := False\<rparr>)"
      by (simp add: generate_invariant_def)
    from Cons.IH [OF this] Cons.IH [OF Cons.prems] False show ?thesis
      by auto
  qed
qed

lemma pass_compiles_ready:
  "m \<in> set xs \<Longrightarrow> \<forall>p. (p, m) \<in> dependency_rel ct g \<longrightarrow> p \<in> done_nodes st \<Longrightarrow>
   m \<in> done_nodes (generate_nodes_pass ct g xs st)"
proof (induction xs arbitrary: st)
  case Nil
  then show ?case by simp
next
  case (Cons n rest)
  show ?case
  proof (cases "m = n")
    case True
    with Cons.prems(2) have "n \<in> done_nodes st \<or>
        inputs_done ct g (graph_node g n) (done_nodes st) (inputs (graph_node g n))"
      by (simp add: inputs_done_iff)
    then show ?thesis
      using pass_done_mono [of st ct g rest]
        pass_done_mono [of "st\<lparr>compiled := compiled st @ [n], done_nodes := insert n (done_nodes st),
          current_shader := node_flags ct (graph_node g n)
          (compile_node ct (graph_node g n) (current_shader st))\<rparr>" ct g rest] True
      by auto
  next
    case False
    with Cons.prems have "m \<in> set rest" by simp
    from Cons.IH [OF this] Cons.prems(2) show ?thesis
      by auto
  qed
qed

lemma pass_progress:
  assumes "wf (dependency_rel ct g)" and "dependency_closed ct g (set xs)"
    and "done_nodes st \<subseteq> set xs" and "done_nodes st \<noteq> set xs"
  shows "done_nodes st \<subset> done_nodes (generate_nodes_pass ct g xs st)"
proof -
  from assms(3,4) obtain x where "x \<in> set xs - done_nodes st"
    by blast
  from wfE_min [OF assms(1) this] obtain m where m: "m \<in> set xs - done_nodes st"
    and least: "\<And>p. (p, m) \<in> dependency_rel ct g \<Longrightarrow> p \<notin> set xs - done_nodes st"
    by metis
  have "\<forall>p. (p, m) \<in> dependency_rel ct g \<longrightarrow> p \<in> done_nodes st"
    using least assms(2) m by (auto simp add: dependency_closed_def)
  with m have "m \<in> done_nodes (generate_nodes_pass ct g xs st)"
    by (simp add: pass_compiles_ready)
  with m pass_done_mono [of st ct g xs] show ?thesis
    by auto
qed

lemma generate_nodes_loop_result:
  assumes "wf (dependency_rel ct g)" and "dependency_closed ct g (set xs)" and "distinct xs"
  shows "done_nodes st \<subseteq> set xs \<Longrightarrow> generate_invariant ct g st \<Longrightarrow>
     card (set xs - done_nodes st) < runs \<Longrightarrow>
     \<exists>st'. generate_nodes_loop runs ct g xs st = Some st' \<and> done_nodes st' = set xs \<and>
        nodes_done st' \<and> generate_invariant ct g st'"
proof (induction runs arbitrary: st)
  case 0
  then show ?case by simp
next
  case (Suc runs)
  let ?st0 = "st\<lparr>nodes_done := True\<rparr>"
  let ?st1 = "generate_nodes_pass ct g xs ?st0"
  have inv1: "generate_invariant ct g ?st1"
    using Suc.prems(2) by (intro pass_invariant) (simp add: generate_invariant_def)
  have upper: "done_nodes ?st1 \<subseteq> set xs"
    using pass_done_upper [of ct g xs ?st0] Suc.prems(1) by auto
  have nd: "nodes_done ?st1 = (set xs \<subseteq> done_nodes ?st1)"
    using pass_nodes_done [OF assms(3), of ct g ?st0] by simp
  show ?case
  proof (cases "nodes_done ?st1")
    case True
    with nd upper inv1 show ?thesis
      by (auto simp add: Let_def)
  next
    case False
    with nd have "\<not> set xs \<subseteq> done_nodes ?st1" by simp
    with pass_done_mono [of ?st0 ct g xs] have ne: "done_nodes ?st0 \<noteq> set xs"
      by auto
    have "done_nodes ?st0 \<subset> done_nodes ?st1"
      using assms(1,2) Suc.prems(1) ne by (intro pass_progress) simp_all
    then have "set xs - done_nodes ?st1 \<subset> set xs - done_nodes st"
      using upper by auto
    then have "card (set xs - done_nodes ?st1) < card (set xs - done_nodes st)"
      by (intro psubset_card_mono) simp_all
    with Suc.prems(3) have "card (set xs - done_nodes ?st1) < runs"
      by simp
    from Suc.IH [OF upper inv1 this] False show ?thesis
      by (simp add: Let_def)
  qed
qed

lemma generate_nodes_over_result:
  assumes "wf (dependency_rel ct g)" and "dependency_closed ct g (set xs)" and "distinct xs"
    and "length xs < runs"
  shows "\<exists>st. generate_nodes_over runs ct g xs sh = Some st \<and> done_nodes st = set xs \<and>
        nodes_done st \<and> generate_invariant ct g st"
  unfolding generate_nodes_over_def
proof (rule generate_nodes_loop_result [OF assms(1,2,3)])
  show "card (set xs - done_nodes \<lparr>done_nodes = {}, nodes_done = True, compiled = [], current_shader = sh\<rparr>) < runs"
    using assms(4) card_length [of xs] by simp
qed (simp_all add: generate_invariant_def compiled_after_inputs_def)

lemma diamond_links:
  "i \<in> set (inputs (graph_node diamond_graph n)) \<Longrightarrow> link i = Some l \<Longrightarrow> output_parent l < n"
  by (auto simp add: diamond_graph_def linked_node_def output_node_def plain_node_def socket_def
      split: if_splits)

lemma diamond_wf: "wf (dependency_rel ct diamond_graph)"
proof (rule wf_subset [OF wf_less_than])
  show "dependency_rel ct diamond_graph \<subseteq> less_than"
    using diamond_links by (auto simp add: dependency_rel_def)
qed

lemma diamond_closed: "dependency_closed ct diamond_graph (set [4, 3, 2, 1])"
  by (auto simp add: dependency_closed_def dependency_rel_def diamond_graph_def linked_node_def
      plain_node_def socket_def)

lemma dependency_closed_rtrancl:
  assumes "dependency_closed ct g S" and "(m, n) \<in> (dependency_rel ct g)\<^sup>*" and "n \<in> S"
  shows "m \<in> S"
  using assms(2,3)
proof (induction rule: converse_rtrancl_induct)
  case base
  then show ?case .
next
  case (step y z)
  with assms(1) show ?case
    by (auto simp add: dependency_closed_def)
qed

lemma generate_nodes_loop_compiled_subset:
  "generate_nodes_loop runs ct g xs st = Some st' \<Longrightarrow> generate_invariant ct g st \<Longrightarrow>
   done_nodes st \<subseteq> set xs \<Longrightarrow> set (compiled st') \<subseteq> set xs"
proof (induction runs arbitrary: st)
  case 0
  then show ?case by simp
next
  case (Suc runs)
  let ?st0 = "st\<lparr>nodes_done := True\<rparr>"
  let ?st1 = "generate_nodes_pass ct g xs ?st0"
  have inv1: "generate_invariant ct g ?st1"
    using Suc.prems(2) by (intro pass_invariant) (simp add: generate_invariant_def)
  have upper: "done_nodes ?st1 \<subseteq> set xs"
    using pass_done_upper [of ct g xs ?st0] Suc.prems(3) by auto
  show ?case
  proof (cases "nodes_done ?st1")
    case True
    with Suc.prems(1) have "st' = ?st1"
      by (simp add: Let_def)
    with inv1 upper show ?thesis
      by (simp add: generate_invariant_def)
  next
    case False
    with Suc.prems(1) have "generate_nodes_loop runs ct g xs ?st1 = Some st'"
      by (simp add: Let_def)
    from Suc.IH [OF this inv1 upper] show ?thesis .
  qed
qed

lemma count_list_distinct:
  "distinct xs \<Longrightarrow> count_list xs n = (if n \<in> set xs then 1 else 0)"
  by (induction xs) auto

lemma find_dependencies_reachable:
  assumes "wf (dependency_rel ct g)"
  shows "\<exists>k0. \<forall>k\<ge>k0.
     find_dependencies k ct g {} input =
       Some {m. \<exists>l. link input = Some l \<and> (m, output_parent l) \<in> (dependency_rel ct g)\<^sup>*} \<and>
     finite {m. \<exists>l. link input = Some l \<and> (m, output_parent l) \<in> (dependency_rel ct g)\<^sup>*} \<and>
     dependency_closed ct g
       {m. \<exists>l. link input = Some l \<and> (m, output_parent l) \<in> (dependency_rel ct g)\<^sup>*}"
proof -
  let ?reach = "{m. \<exists>l. link input = Some l \<and> (m, output_parent l) \<in> (dependency_rel ct g)\<^sup>*}"
  from find_dependencies_returns [OF assms,
      of "case link input of None \<Rightarrow> 0 | Some l \<Rightarrow> output_parent l"]
  obtain k0 where "\<forall>k\<ge>k0. \<forall>deps i.
      (\<forall>l. link i = Some l \<longrightarrow>
         output_parent l = (case link input of None \<Rightarrow> 0 | Some l \<Rightarrow> output_parent l)) \<longrightarrow>
      find_dependencies k ct g deps i \<noteq> None"
    by blast
  moreover have "\<forall>l. link input = Some l \<longrightarrow>
      output_parent l = (case link input of None \<Rightarrow> 0 | Some l \<Rightarrow> output_parent l)"
    by simp
  ultimately have k0: "\<And>k deps. k0 \<le> k \<Longrightarrow> find_dependencies k ct g deps input \<noteq> None"
    by blast
  have "find_dependencies k ct g {} input = Some ?reach \<and> finite ?reach \<and>
      dependency_closed ct g ?reach"
    if "k0 \<le> k" for k
  proof -
    from k0 [OF that] obtain deps where deps: "find_dependencies k ct g {} input = Some deps"
      by blast
    have empty: "dependency_closed ct g {}"
      by (simp add: dependency_closed_def)
    from find_dependencies_sound [OF deps empty]
    have cl: "dependency_closed ct g deps"
      and src: "\<forall>l. link input = Some l \<longrightarrow> output_parent l \<in> deps"
      and up: "deps \<subseteq> ?reach"
      by auto
    have fin: "finite deps"
      using find_dependencies_finite(1) [OF deps] by simp
    have "?reach \<subseteq> deps"
      using dependency_closed_rtrancl [OF cl] src by auto
    with up have "deps = ?reach"
      by auto
    with deps fin cl show ?thesis
      by simp
  qed
  then show ?thesis by blast
qed

text \<open>
  Claim C3. On a graph whose links through non-skipped inputs have no infinite chain upstream
  (for a finite graph: no cycle), \<^verbatim>\<open>find_dependencies\<close> called on an input with the empty
  set returns, for every sufficient depth, a finite set that contains the source node of the
  input's link, that contains with every node the source node of each of its linked,
  non-skipped inputs, and that is exactly the set of nodes from which a path of links through
  non-skipped inputs leads to that source node: a node reachable only through skipped inputs
  is not in it. \<^verbatim>\<open>generate_nodes\<close> run on this set, in any order, compiles no node
  outside it.
\<close>

theorem find_dependencies_closed_set:
  assumes "wf (dependency_rel ct g)"
  shows "\<exists>k0. \<forall>k\<ge>k0. \<exists>deps.
     find_dependencies k ct g {} input = Some deps \<and> finite deps \<and>
     (\<forall>l. link input = Some l \<longrightarrow> output_parent l \<in> deps) \<and>
     (\<forall>n\<in>deps. \<forall>i\<in>set (inputs (graph_node g n)).
        \<not> node_skip_input ct g (graph_node g n) i \<longrightarrow>
        (\<forall>l. link i = Some l \<longrightarrow> output_parent l \<in> deps)) \<and>
     deps = {m. \<exists>l. link input = Some l \<and> (m, output_parent l) \<in> (dependency_rel ct g)\<^sup>*} \<and>
     (\<forall>runs order sh st. set order = deps \<longrightarrow>
        generate_nodes_over runs ct g order sh = Some st \<longrightarrow> set (compiled st) \<subseteq> deps)"
proof -
  let ?reach = "{m. \<exists>l. link input = Some l \<and> (m, output_parent l) \<in> (dependency_rel ct g)\<^sup>*}"
  from find_dependencies_reachable [OF assms, of input]
  obtain k0 where k0: "\<And>k. k0 \<le> k \<Longrightarrow>
      find_dependencies k ct g {} input = Some ?reach \<and> finite ?reach \<and>
      dependency_closed ct g ?reach"
    by blast
  have cl: "dependency_closed ct g ?reach"
    using k0 [of k0] by simp
  have src: "\<forall>l. link input = Some l \<longrightarrow> output_parent l \<in> ?reach"
    by simp
  have closed: "\<forall>n\<in>?reach. \<forall>i\<in>set (inputs (graph_node g n)).
      \<not> node_skip_input ct g (graph_node g n) i \<longrightarrow>
      (\<forall>l. link i = Some l \<longrightarrow> output_parent l \<in> ?reach)"
  proof (intro ballI impI allI)
    fix n i l
    assume n: "n \<in> ?reach" and "i \<in> set (inputs (graph_node g n))"
      "\<not> node_skip_input ct g (graph_node g n) i" "link i = Some l"
    then have "(output_parent l, n) \<in> dependency_rel ct g"
      by (auto simp add: dependency_rel_def)
    with cl n show "output_parent l \<in> ?reach"
      unfolding dependency_closed_def by blast
  qed
  have prog: "\<forall>runs order sh st. set order = ?reach \<longrightarrow>
      generate_nodes_over runs ct g order sh = Some st \<longrightarrow> set (compiled st) \<subseteq> ?reach"
  proof (intro allI impI)
    fix runs order sh st
    assume o: "set order = ?reach" and r: "generate_nodes_over runs ct g order sh = Some st"
    have "set (compiled st) \<subseteq> set order"
      by (rule generate_nodes_loop_compiled_subset [OF r [unfolded generate_nodes_over_def]])
        (simp_all add: generate_invariant_def compiled_after_inputs_def)
    with o show "set (compiled st) \<subseteq> ?reach" by simp
  qed
  have "\<exists>deps. find_dependencies k ct g {} input = Some deps \<and> finite deps \<and>
     (\<forall>l. link input = Some l \<longrightarrow> output_parent l \<in> deps) \<and>
     (\<forall>n\<in>deps. \<forall>i\<in>set (inputs (graph_node g n)).
        \<not> node_skip_input ct g (graph_node g n) i \<longrightarrow>
        (\<forall>l. link i = Some l \<longrightarrow> output_parent l \<in> deps)) \<and>
     deps = ?reach \<and>
     (\<forall>runs order sh st. set order = deps \<longrightarrow>
        generate_nodes_over runs ct g order sh = Some st \<longrightarrow> set (compiled st) \<subseteq> deps)"
    if "k0 \<le> k" for k
    using k0 [OF that] src closed prog by blast
  then show ?thesis by blast
qed

theorem find_dependencies_closed_set_witness:
  "wf (dependency_rel SHADER_TYPE_SURFACE diamond_graph) \<and>
   find_dependencies 4 SHADER_TYPE_SURFACE diamond_graph {} (socket ''Surface'' (Some 4))
     = Some {1, 2, 3, 4} \<and>
   (\<exists>k0. \<forall>k\<ge>k0. \<exists>deps.
      find_dependencies k SHADER_TYPE_SURFACE diamond_graph {} (socket ''Surface'' (Some 4))
        = Some deps \<and>
      4 \<in> deps \<and>
      deps = {m. (m, 4) \<in> (dependency_rel SHADER_TYPE_SURFACE diamond_graph)\<^sup>*})"
proof -
  have w: "wf (dependency_rel SHADER_TYPE_SURFACE diamond_graph)"
    by (rule diamond_wf)
  have e: "find_dependencies 4 SHADER_TYPE_SURFACE diamond_graph {}
      (socket ''Surface'' (Some 4)) = Some {1, 2, 3, 4}"
    by (simp add: eval_nat_numeral diamond_graph_def linked_node_def output_node_def
        plain_node_def socket_def node_skip_input_def Let_def insert_commute)
  have l: "link (socket ''Surface'' (Some 4)) = Some \<lparr>output_parent = 4, output_name = ''Out''\<rparr>"
    by (simp add: socket_def)
  from find_dependencies_closed_set [OF w, of "socket ''Surface'' (Some 4)"]
  obtain k0 where "\<forall>k\<ge>k0. \<exists>deps.
      find_dependencies k SHADER_TYPE_SURFACE diamond_graph {} (socket ''Surface'' (Some 4))
        = Some deps \<and>
      4 \<in> deps \<and>
      deps = {m. (m, 4) \<in> (dependency_rel SHADER_TYPE_SURFACE diamond_graph)\<^sup>*}"
    unfolding l by auto
  with w e show ?thesis by blast
qed

text \<open>
  Claim C4. For a set of nodes closed under the dependency relation of an acyclic graph,
  \<^verbatim>\<open>generate_nodes\<close> returns, whatever the order in which the set is iterated, with every
  node of the set compiled exactly once and each node compiled after the source node of each
  of its linked, non-skipped inputs.
\<close>

theorem generate_nodes_once_in_order:
  assumes "wf (dependency_rel ct g)" and "dependency_closed ct g (set order)"
    and "distinct order" and "length order < runs"
  shows "\<exists>st. generate_nodes_over runs ct g order sh = Some st \<and>
           set (compiled st) = set order \<and> distinct (compiled st) \<and>
           (\<forall>n \<in> set order. count_list (compiled st) n = 1) \<and>
           compiled_after_inputs ct g (compiled st)"
proof -
  from generate_nodes_over_result [OF assms]
  obtain st where st: "generate_nodes_over runs ct g order sh = Some st"
    and d: "done_nodes st = set order" and inv: "generate_invariant ct g st"
    by blast
  from inv d have "set (compiled st) = set order" "distinct (compiled st)"
    "compiled_after_inputs ct g (compiled st)"
    by (simp_all add: generate_invariant_def)
  with st show ?thesis
    by (auto simp add: count_list_distinct)
qed

theorem generate_nodes_once_in_order_witness:
  "wf (dependency_rel SHADER_TYPE_SURFACE diamond_graph) \<and>
   dependency_closed SHADER_TYPE_SURFACE diamond_graph (set [4, 3, 2, 1]) \<and>
   distinct [4, 3, 2, 1 :: nat] \<and> length [4, 3, 2, 1 :: nat] < 5 \<and>
   map_option compiled
     (generate_nodes_over 5 SHADER_TYPE_SURFACE diamond_graph [4, 3, 2, 1] blank_shader)
     = Some [1, 3, 2, 4] \<and>
   (\<exists>st. generate_nodes_over 5 SHADER_TYPE_SURFACE diamond_graph [4, 3, 2, 1] blank_shader
        = Some st \<and>
      count_list (compiled st) 1 = 1 \<and>
      compiled_after_inputs SHADER_TYPE_SURFACE diamond_graph (compiled st))"
proof -
  have w: "wf (dependency_rel SHADER_TYPE_SURFACE diamond_graph)"
    by (rule diamond_wf)
  have c: "dependency_closed SHADER_TYPE_SURFACE diamond_graph (set [4, 3, 2, 1])"
    by (rule diamond_closed)
  have d: "distinct [4, 3, 2, 1 :: nat]" and n: "length [4, 3, 2, 1 :: nat] < 5"
    by simp_all
  have e: "map_option compiled
     (generate_nodes_over 5 SHADER_TYPE_SURFACE diamond_graph [4, 3, 2, 1] blank_shader)
     = Some [1, 3, 2, 4]"
    by (simp add: eval_nat_numeral generate_nodes_over_def diamond_graph_def linked_node_def
        output_node_def plain_node_def socket_def node_skip_input_def Let_def)
  from generate_nodes_once_in_order [OF w c d n, of blank_shader] w c d n e
  show ?thesis by auto
qed

text \<open>
  Claim C5. For a set of nodes closed under the dependency relation of an acyclic graph, the
  loop of \<^verbatim>\<open>generate_nodes\<close> terminates within one run more than there are nodes, with
  every node of the set compiled. A run of the \<^verbatim>\<open>foreach\<close> ends with \<^verbatim>\<open>nodes_done\<close>
  true exactly when no node of the set remains to be compiled, and a run that ends with
  \<^verbatim>\<open>nodes_done\<close> false has compiled at least one more node.
\<close>

theorem generate_nodes_terminates:
  assumes "wf (dependency_rel ct g)" and "dependency_closed ct g (set order)"
    and "distinct order" and "length order < runs"
  shows "(\<exists>st. generate_nodes_over runs ct g order sh = Some st \<and> nodes_done st \<and>
            done_nodes st = set order \<and> set (compiled st) = set order) \<and>
         (\<forall>st. done_nodes st \<subseteq> set order \<longrightarrow>
            nodes_done (generate_nodes_pass ct g order (st\<lparr>nodes_done := True\<rparr>)) =
              (done_nodes (generate_nodes_pass ct g order (st\<lparr>nodes_done := True\<rparr>)) = set order) \<and>
            (\<not> nodes_done (generate_nodes_pass ct g order (st\<lparr>nodes_done := True\<rparr>)) \<longrightarrow>
               done_nodes st \<subset> done_nodes (generate_nodes_pass ct g order (st\<lparr>nodes_done := True\<rparr>))))"
proof (intro conjI allI impI)
  from generate_nodes_over_result [OF assms, of sh]
  obtain st where "generate_nodes_over runs ct g order sh = Some st" "done_nodes st = set order"
    "nodes_done st" "generate_invariant ct g st"
    by blast
  then show "\<exists>st. generate_nodes_over runs ct g order sh = Some st \<and> nodes_done st \<and>
            done_nodes st = set order \<and> set (compiled st) = set order"
    by (auto simp add: generate_invariant_def)
next
  fix st :: generate_state
  assume sub: "done_nodes st \<subseteq> set order"
  let ?st0 = "st\<lparr>nodes_done := True\<rparr>"
  let ?st1 = "generate_nodes_pass ct g order ?st0"
  have upper: "done_nodes ?st1 \<subseteq> set order"
    using pass_done_upper [of ct g order ?st0] sub by auto
  have nd: "nodes_done ?st1 = (set order \<subseteq> done_nodes ?st1)"
    using pass_nodes_done [OF assms(3), of ct g ?st0] by simp
  with upper show "nodes_done ?st1 = (done_nodes ?st1 = set order)"
    by auto
  assume "\<not> nodes_done ?st1"
  with nd have "\<not> set order \<subseteq> done_nodes ?st1" by simp
  with pass_done_mono [of ?st0 ct g order] have ne: "done_nodes ?st0 \<noteq> set order"
    by auto
  have "done_nodes ?st0 \<subset> done_nodes ?st1"
    using assms(1,2) sub ne by (intro pass_progress) simp_all
  then show "done_nodes st \<subset> done_nodes ?st1"
    by simp
qed

theorem generate_nodes_terminates_witness:
  "wf (dependency_rel SHADER_TYPE_SURFACE diamond_graph) \<and>
   dependency_closed SHADER_TYPE_SURFACE diamond_graph (set [4, 3, 2, 1]) \<and>
   distinct [4, 3, 2, 1 :: nat] \<and> length [4, 3, 2, 1 :: nat] < 5 \<and>
   (\<exists>st. generate_nodes_over 5 SHADER_TYPE_SURFACE diamond_graph [4, 3, 2, 1] blank_shader
        = Some st \<and> nodes_done st \<and> done_nodes st = {1, 2, 3, 4})"
proof -
  have w: "wf (dependency_rel SHADER_TYPE_SURFACE diamond_graph)"
    by (rule diamond_wf)
  have c: "dependency_closed SHADER_TYPE_SURFACE diamond_graph (set [4, 3, 2, 1])"
    by (rule diamond_closed)
  have d: "distinct [4, 3, 2, 1 :: nat]" and n: "length [4, 3, 2, 1 :: nat] < 5"
    by simp_all
  from generate_nodes_terminates [OF w c d n, of blank_shader] w c d n
  show ?thesis by auto
qed

section \<open>Properties of \<^verbatim>\<open>compile\<close>\<close>

lemma add_untouched: "untouched (OSLCompiler_add ct n l sh) = untouched sh"
  by (simp add: OSLCompiler_add_def untouched_def Let_def split: add_lookup.splits option.splits)

lemma add_has_bump:
  "ct \<noteq> SHADER_TYPE_SURFACE \<Longrightarrow> has_bump (OSLCompiler_add ct n l sh) = has_bump sh"
  by (simp add: OSLCompiler_add_def Let_def split: add_lookup.splits option.splits)

lemma node_flags_untouched: "untouched (node_flags ct n sh) = untouched sh"
  by (simp add: node_flags_def untouched_def Let_def)

lemma node_flags_has_bump:
  "ct \<noteq> SHADER_TYPE_SURFACE \<Longrightarrow> has_bump (node_flags ct n sh) = has_bump sh"
  by (simp add: node_flags_def Let_def)

lemma fold_add_keeps:
  assumes "\<And>l sh. f (OSLCompiler_add ct n l sh) = f sh"
  shows "f (fold (OSLCompiler_add ct n) ls sh) = f sh"
  using assms by (induction ls arbitrary: sh) simp_all

lemma compile_node_untouched: "untouched (compile_node ct n sh) = untouched sh"
  unfolding compile_node_def by (rule fold_add_keeps) (rule add_untouched)

lemma compile_node_has_bump:
  "ct \<noteq> SHADER_TYPE_SURFACE \<Longrightarrow> has_bump (compile_node ct n sh) = has_bump sh"
  unfolding compile_node_def by (rule fold_add_keeps) (rule add_has_bump)

lemma pass_keeps:
  assumes "\<And>n sh. f (node_flags ct n (compile_node ct n sh)) = f sh"
  shows "f (current_shader (generate_nodes_pass ct g xs st)) = f (current_shader st)"
  using assms
proof (induction xs arbitrary: st)
  case Nil
  then show ?case by simp
next
  case (Cons n rest)
  show ?case
    using Cons.IH [OF Cons.prems, of st] Cons.IH [OF Cons.prems, of "st\<lparr>nodes_done := False\<rparr>"]
      Cons.IH [OF Cons.prems, of "st\<lparr>compiled := compiled st @ [n],
        done_nodes := insert n (done_nodes st),
        current_shader := node_flags ct (graph_node g n)
          (compile_node ct (graph_node g n) (current_shader st))\<rparr>"]
      Cons.prems
    by simp
qed

lemma loop_keeps:
  assumes "\<And>n sh. f (node_flags ct n (compile_node ct n sh)) = f sh"
  shows "generate_nodes_loop runs ct g xs st = Some st' \<Longrightarrow>
    f (current_shader st') = f (current_shader st)"
proof (induction runs arbitrary: st)
  case 0
  then show ?case by simp
next
  case (Suc runs)
  let ?st1 = "generate_nodes_pass ct g xs (st\<lparr>nodes_done := True\<rparr>)"
  have k: "f (current_shader ?st1) = f (current_shader st)"
    using pass_keeps [of f ct g xs "st\<lparr>nodes_done := True\<rparr>", OF assms] by simp
  show ?case
  proof (cases "nodes_done ?st1")
    case True
    with Suc.prems k show ?thesis by (simp add: Let_def)
  next
    case False
    with Suc.prems have "generate_nodes_loop runs ct g xs ?st1 = Some st'"
      by (simp add: Let_def)
    from Suc.IH [OF this] k show ?thesis by simp
  qed
qed

lemma dependency_rel_subset: "dependency_rel type g \<subseteq> link_rel g"
  by (auto simp add: dependency_rel_def link_rel_def)

lemma compile_type_returns:
  assumes "wf (link_rel g)"
    and "node_input (graph_node g (graph_output g)) (type_socket type) \<noteq> None"
  shows "\<exists>k0. \<forall>fuel\<ge>k0. compile_type_ok fuel g type"
proof -
  have w: "wf (dependency_rel type g)"
    using assms(1) dependency_rel_subset by (rule wf_subset)
  from assms(2) obtain input where
    input: "node_input (graph_node g (graph_output g)) (type_socket type) = Some input"
    by blast
  from find_dependencies_reachable [OF w, of input]
  obtain k0 where k0: "\<And>k. k0 \<le> k \<Longrightarrow>
     find_dependencies k type g {} input =
       Some {m. \<exists>l. link input = Some l \<and> (m, output_parent l) \<in> (dependency_rel type g)\<^sup>*} \<and>
     finite {m. \<exists>l. link input = Some l \<and> (m, output_parent l) \<in> (dependency_rel type g)\<^sup>*} \<and>
     dependency_closed type g
       {m. \<exists>l. link input = Some l \<and> (m, output_parent l) \<in> (dependency_rel type g)\<^sup>*}"
    by blast
  define reach where
    "reach = {m. \<exists>l. link input = Some l \<and> (m, output_parent l) \<in> (dependency_rel type g)\<^sup>*}"
  have "compile_type_ok fuel g type" if fuel: "max k0 (Suc (card reach)) \<le> fuel" for fuel
    unfolding compile_type_ok_def
  proof (intro allI)
    fix c shader
    from k0 [of fuel] fuel have fd: "find_dependencies fuel type g {} input = Some reach"
      and fin: "finite reach" and cl: "dependency_closed type g reach"
      by (auto simp add: reach_def)
    let ?order = "sorted_list_of_set reach"
    have "\<exists>st. generate_nodes_over fuel type g ?order shader = Some st \<and>
        done_nodes st = set ?order \<and> nodes_done st \<and> generate_invariant type g st"
    proof (rule generate_nodes_over_result [OF w])
      show "dependency_closed type g (set ?order)" using fin cl by simp
      show "distinct ?order" by simp
      show "length ?order < fuel" using fuel fin by simp
    qed
    then obtain st where st: "generate_nodes fuel type g reach shader = Some st"
      by (auto simp add: generate_nodes_def)
    have u: "untouched (current_shader st) = untouched shader"
      using loop_keeps [of untouched type, OF _ st [unfolded generate_nodes_def generate_nodes_over_def]]
      by (simp add: node_flags_untouched compile_node_untouched)
    have b: "has_bump (current_shader st) = has_bump shader" if "type \<noteq> SHADER_TYPE_SURFACE"
      using loop_keeps [of has_bump type, OF _ st [unfolded generate_nodes_def generate_nodes_over_def]] that
      by (simp add: node_flags_has_bump compile_node_has_bump)
    show "\<exists>group sh'.
        compile_type fuel c shader g type =
          Some (Inr (group, sh',
            c\<lparr>current_type := type, shader_groups := shader_groups c @ [group]\<rparr>)) \<and>
        untouched sh' = untouched shader \<and>
        (type \<noteq> SHADER_TYPE_SURFACE \<longrightarrow> has_bump sh' = has_bump shader)"
      using input fd st u b
      by (simp add: compile_type_def Let_def compile_node_untouched compile_node_has_bump)
  qed
  then show ?thesis by blast
qed

lemma compile_surface_result:
  assumes "compile_type_ok fuel g SHADER_TYPE_SURFACE" and "compile_type_ok fuel g SHADER_TYPE_BUMP"
    and "output_linked g output ''Surface'' = Inr ls"
  shows "\<exists>s1 c1. compile_surface fuel hb g output (sh, c) = Some (Inr (s1, c1)) \<and>
     reference_count s1 = reference_count sh \<and>
     has_surface s1 = (if reference_count sh \<noteq> 0 \<and> ls then True else has_surface sh) \<and>
     (osl_surface_ref s1 \<noteq> None) = (reference_count sh \<noteq> 0 \<and> ls) \<and>
     (osl_surface_bump_ref s1 \<noteq> None) = (reference_count sh \<noteq> 0 \<and> ls \<and> hb) \<and>
     has_volume s1 = has_volume sh \<and> has_displacement s1 = has_displacement sh \<and>
     (\<not> (reference_count sh \<noteq> 0 \<and> ls) \<longrightarrow> has_bump s1 = has_bump sh)"
proof (cases "reference_count sh \<noteq> 0 \<and> ls")
  case False
  with assms(3) show ?thesis
    by (auto simp add: compile_surface_def Let_def)
next
  case True
  from assms(1) obtain group s1 where
    1: "compile_type fuel c sh g SHADER_TYPE_SURFACE =
          Some (Inr (group, s1, c\<lparr>current_type := SHADER_TYPE_SURFACE,
             shader_groups := shader_groups c @ [group]\<rparr>))"
    and u1: "untouched s1 = untouched sh"
    unfolding compile_type_ok_def by blast
  let ?c1 = "c\<lparr>current_type := SHADER_TYPE_SURFACE, shader_groups := shader_groups c @ [group]\<rparr>"
  show ?thesis
  proof (cases hb)
    case False
    with True assms(3) 1 u1 show ?thesis
      by (simp add: compile_surface_def Let_def bind_result_def untouched_def)
  next
    case hb: True
    from assms(2) obtain group2 s2 where
      2: "compile_type fuel ?c1 (s1\<lparr>osl_surface_ref := Some group\<rparr>) g SHADER_TYPE_BUMP =
          Some (Inr (group2, s2, ?c1\<lparr>current_type := SHADER_TYPE_BUMP,
             shader_groups := shader_groups ?c1 @ [group2]\<rparr>))"
      and u2: "untouched s2 = untouched (s1\<lparr>osl_surface_ref := Some group\<rparr>)"
      unfolding compile_type_ok_def by blast
    from True assms(3) 1 u1 2 u2 hb show ?thesis
      by (simp add: compile_surface_def Let_def bind_result_def untouched_def)
  qed
qed

lemma compile_volume_result:
  assumes "compile_type_ok fuel g SHADER_TYPE_VOLUME"
    and "output_linked g output ''Volume'' = Inr lv"
  shows "\<exists>s1 c1. compile_volume fuel g output (sh, c) = Some (Inr (s1, c1)) \<and>
     reference_count s1 = reference_count sh \<and>
     has_volume s1 = (if reference_count sh \<noteq> 0 \<and> lv then True else has_volume sh) \<and>
     (osl_volume_ref s1 \<noteq> None) = (reference_count sh \<noteq> 0 \<and> lv) \<and>
     has_surface s1 = has_surface sh \<and> osl_surface_ref s1 = osl_surface_ref sh \<and>
     osl_surface_bump_ref s1 = osl_surface_bump_ref sh \<and>
     has_displacement s1 = has_displacement sh \<and> has_bump s1 = has_bump sh"
proof (cases "reference_count sh \<noteq> 0 \<and> lv")
  case False
  with assms(2) show ?thesis
    by (auto simp add: compile_volume_def Let_def)
next
  case True
  from assms(1) obtain group s1 where
    "compile_type fuel c sh g SHADER_TYPE_VOLUME =
          Some (Inr (group, s1, c\<lparr>current_type := SHADER_TYPE_VOLUME,
             shader_groups := shader_groups c @ [group]\<rparr>))"
    "untouched s1 = untouched sh" "has_bump s1 = has_bump sh"
    unfolding compile_type_ok_def by fastforce
  with True assms(2) show ?thesis
    by (simp add: compile_volume_def Let_def bind_result_def untouched_def)
qed

lemma compile_displacement_result:
  assumes "compile_type_ok fuel g SHADER_TYPE_DISPLACEMENT"
    and "output_linked g output ''Displacement'' = Inr ld"
  shows "\<exists>s1 c1. compile_displacement fuel g output (sh, c) = Some (Inr (s1, c1)) \<and>
     reference_count s1 = reference_count sh \<and>
     has_displacement s1 = (if reference_count sh \<noteq> 0 \<and> ld then True else has_displacement sh) \<and>
     (osl_displacement_ref s1 \<noteq> None) = (reference_count sh \<noteq> 0 \<and> ld) \<and>
     has_surface s1 = has_surface sh \<and> osl_surface_ref s1 = osl_surface_ref sh \<and>
     osl_surface_bump_ref s1 = osl_surface_bump_ref sh \<and>
     has_volume s1 = has_volume sh \<and> osl_volume_ref s1 = osl_volume_ref sh \<and>
     has_bump s1 = has_bump sh"
proof (cases "reference_count sh \<noteq> 0 \<and> ld")
  case False
  with assms(2) show ?thesis
    by (auto simp add: compile_displacement_def Let_def)
next
  case True
  from assms(1) obtain group s1 where
    "compile_type fuel c sh g SHADER_TYPE_DISPLACEMENT =
          Some (Inr (group, s1, c\<lparr>current_type := SHADER_TYPE_DISPLACEMENT,
             shader_groups := shader_groups c @ [group]\<rparr>))"
    "untouched s1 = untouched sh" "has_bump s1 = has_bump sh"
    unfolding compile_type_ok_def by fastforce
  with True assms(2) show ?thesis
    by (simp add: compile_displacement_def Let_def bind_result_def untouched_def)
qed

lemma compile_result:
  assumes "is_modified shader" and "graph shader = Some g0"
    and "compile_has_bump shader g0 (graph_output g0) = Inr hb"
    and "g = finalize hb (has_integrator_dependency shader)
               (displacement_method shader = DISPLACE_BOTH) g0"
    and "output_linked g (graph_output g0) ''Surface'' = Inr ls"
    and "output_linked g (graph_output g0) ''Volume'' = Inr lv"
    and "output_linked g (graph_output g0) ''Displacement'' = Inr ld"
    and "\<forall>type. compile_type_ok fuel g type"
  shows "\<exists>sh' c'. compile finalize fuel c shader = Some (Inr (sh', c')) \<and>
     has_surface sh' = (reference_count shader \<noteq> 0 \<and> ls) \<and>
     (osl_surface_ref sh' \<noteq> None) = (reference_count shader \<noteq> 0 \<and> ls) \<and>
     (osl_surface_bump_ref sh' \<noteq> None) = (reference_count shader \<noteq> 0 \<and> ls \<and> hb) \<and>
     has_volume sh' = (reference_count shader \<noteq> 0 \<and> lv) \<and>
     (osl_volume_ref sh' \<noteq> None) = (reference_count shader \<noteq> 0 \<and> lv) \<and>
     has_displacement sh' = (reference_count shader \<noteq> 0 \<and> ld) \<and>
     (osl_displacement_ref sh' \<noteq> None) = (reference_count shader \<noteq> 0 \<and> ld) \<and>
     (\<not> (reference_count shader \<noteq> 0 \<and> ls) \<longrightarrow> has_bump sh' = hb)"
proof -
  let ?out = "graph_output g0"
  let ?s0 = "compile_reset hb g shader"
  let ?rc = "reference_count shader \<noteq> 0"
  have ok: "compile_type_ok fuel g type" for type
    using assms(8) by simp
  have r0: "reference_count ?s0 = reference_count shader" "has_surface ?s0 = False"
    "has_volume ?s0 = False" "has_displacement ?s0 = False" "has_bump ?s0 = hb"
    by (simp_all add: compile_reset_def)
  from compile_surface_result [OF ok ok assms(5), of hb ?s0 c]
  obtain s1 c1 where 1: "compile_surface fuel hb g ?out (?s0, c) = Some (Inr (s1, c1))"
    and q1: "reference_count s1 = reference_count ?s0"
      "has_surface s1 = (if reference_count ?s0 \<noteq> 0 \<and> ls then True else has_surface ?s0)"
      "(osl_surface_ref s1 \<noteq> None) = (reference_count ?s0 \<noteq> 0 \<and> ls)"
      "(osl_surface_bump_ref s1 \<noteq> None) = (reference_count ?s0 \<noteq> 0 \<and> ls \<and> hb)"
      "has_volume s1 = has_volume ?s0" "has_displacement s1 = has_displacement ?s0"
      "\<not> (reference_count ?s0 \<noteq> 0 \<and> ls) \<longrightarrow> has_bump s1 = has_bump ?s0"
    by blast
  have p1: "reference_count s1 = reference_count shader" "has_surface s1 = (?rc \<and> ls)"
    "(osl_surface_ref s1 \<noteq> None) = (?rc \<and> ls)"
    "(osl_surface_bump_ref s1 \<noteq> None) = (?rc \<and> ls \<and> hb)"
    "has_volume s1 = False" "has_displacement s1 = False"
    "\<not> (?rc \<and> ls) \<longrightarrow> has_bump s1 = hb"
    using q1 unfolding r0 by simp_all
  from compile_volume_result [OF ok assms(6), of s1 c1]
  obtain s2 c2 where 2: "compile_volume fuel g ?out (s1, c1) = Some (Inr (s2, c2))"
    and q2: "reference_count s2 = reference_count s1"
      "has_volume s2 = (if reference_count s1 \<noteq> 0 \<and> lv then True else has_volume s1)"
      "(osl_volume_ref s2 \<noteq> None) = (reference_count s1 \<noteq> 0 \<and> lv)"
      "has_surface s2 = has_surface s1" "osl_surface_ref s2 = osl_surface_ref s1"
      "osl_surface_bump_ref s2 = osl_surface_bump_ref s1"
      "has_displacement s2 = has_displacement s1" "has_bump s2 = has_bump s1"
    by blast
  have p2: "reference_count s2 = reference_count shader" "has_volume s2 = (?rc \<and> lv)"
    "(osl_volume_ref s2 \<noteq> None) = (?rc \<and> lv)" "has_displacement s2 = False"
    using q2 unfolding p1 by simp_all
  from compile_displacement_result [OF ok assms(7), of s2 c2]
  obtain s3 c3 where 3: "compile_displacement fuel g ?out (s2, c2) = Some (Inr (s3, c3))"
    and q3: "reference_count s3 = reference_count s2"
      "has_displacement s3 = (if reference_count s2 \<noteq> 0 \<and> ld then True else has_displacement s2)"
      "(osl_displacement_ref s3 \<noteq> None) = (reference_count s2 \<noteq> 0 \<and> ld)"
      "has_surface s3 = has_surface s2" "osl_surface_ref s3 = osl_surface_ref s2"
      "osl_surface_bump_ref s3 = osl_surface_bump_ref s2"
      "has_volume s3 = has_volume s2" "osl_volume_ref s3 = osl_volume_ref s2"
      "has_bump s3 = has_bump s2"
    by blast
  have p3: "has_displacement s3 = (?rc \<and> ld)" "(osl_displacement_ref s3 \<noteq> None) = (?rc \<and> ld)"
    using q3 unfolding p2 by simp_all
  have c: "compile finalize fuel c shader = Some (Inr (s3, c3))"
    using assms(1,2,3) 1 2 3 unfolding assms(4)
    by (simp add: compile_def Let_def bind_result_def)
  have "has_surface s3 = (?rc \<and> ls)" "(osl_surface_ref s3 \<noteq> None) = (?rc \<and> ls)"
    "(osl_surface_bump_ref s3 \<noteq> None) = (?rc \<and> ls \<and> hb)"
    "has_volume s3 = (?rc \<and> lv)" "(osl_volume_ref s3 \<noteq> None) = (?rc \<and> lv)"
    "\<not> (?rc \<and> ls) \<longrightarrow> has_bump s3 = hb"
    using p1 p2 q2 q3 by simp_all
  with c p3 show ?thesis
    by blast
qed

lemma output_linked_sockets:
  "output_sockets g output \<Longrightarrow> nm \<in> set [''Surface'', ''Volume'', ''Displacement'', ''Normal''] \<Longrightarrow>
   output_linked g output nm = Inr (socket_linked g output nm)"
  by (auto simp add: output_sockets_def output_linked_def socket_linked_def split: option.splits)

lemma compile_type_ok_all:
  assumes "wf (link_rel g)" and "output_sockets g (graph_output g)"
  shows "\<exists>k0. \<forall>fuel\<ge>k0. \<forall>type. compile_type_ok fuel g type"
proof -
  have "\<exists>k0. \<forall>fuel\<ge>k0. compile_type_ok fuel g type" for type
    using assms(2)
    by (intro compile_type_returns [OF assms(1)])
      (cases type; simp add: output_sockets_def type_socket_def)
  then obtain f where f: "\<And>type fuel. f type \<le> fuel \<Longrightarrow> compile_type_ok fuel g type"
    by metis
  define k0 where "k0 = f SHADER_TYPE_SURFACE + f SHADER_TYPE_VOLUME +
    f SHADER_TYPE_DISPLACEMENT + f SHADER_TYPE_BUMP"
  have "compile_type_ok fuel g type" if "k0 \<le> fuel" for fuel type
    using that by (intro f) (cases type; simp add: k0_def)
  then show ?thesis by blast
qed

text \<open>
  Claim C6, as stated: after \<^verbatim>\<open>compile\<close> on a modified shader with a graph, a context has
  a program and its flag set if and only if the matching input of the Output node is linked.
  This fails for a shader that no object uses: \<^verbatim>\<open>reference_count()\<close> is zero, the
  Surface input is linked, and the code leaves \<^verbatim>\<open>has_surface\<close> false and
  \<^verbatim>\<open>osl_surface_ref\<close> empty.
\<close>

theorem compile_linked_counterexample:
  "socket_linked diamond_graph (graph_output diamond_graph) ''Surface'' \<and>
   map_option has_surface
     (result_shader (compile finalize_unchanged 5 fresh_compiler unreferenced_shader))
     = Some False \<and>
   map_option osl_surface_ref
     (result_shader (compile finalize_unchanged 5 fresh_compiler unreferenced_shader))
     = Some None"
  by (simp add: compile_def compile_has_bump_def compile_surface_def compile_volume_def
      compile_displacement_def compile_reset_def output_linked_def socket_linked_def
      node_input_def bind_result_def result_shader_def finalize_unchanged_def
      unreferenced_shader_def blank_shader_def diamond_graph_def output_node_def plain_node_def
      socket_def Let_def)

text \<open>
  Claim C6, amended: after \<^verbatim>\<open>compile\<close> on a modified shader whose finalized graph is
  acyclic, for each context in Surface, Volume and Displacement, a program group is stored in
  the corresponding \<^verbatim>\<open>osl_*_ref\<close> and the corresponding flag is set if and only if the
  shader's reference count is not zero and the matching input of the Output node is linked in
  the finalized graph; otherwise the reference is empty and the flag false. The call returns
  for every sufficient bound on its loops.
\<close>

theorem compile_contexts:
  assumes "is_modified shader" and "graph shader = Some g0"
    and "compile_has_bump shader g0 (graph_output g0) = Inr hb"
    and "g = finalize hb (has_integrator_dependency shader)
               (displacement_method shader = DISPLACE_BOTH) g0"
    and "wf (link_rel g)"
    and "output_sockets g (graph_output g0)" and "output_sockets g (graph_output g)"
  shows "\<exists>k0. \<forall>fuel\<ge>k0. \<exists>sh' c'. compile finalize fuel c shader = Some (Inr (sh', c')) \<and>
     has_surface sh' =
       (reference_count shader \<noteq> 0 \<and> socket_linked g (graph_output g0) ''Surface'') \<and>
     (osl_surface_ref sh' \<noteq> None) =
       (reference_count shader \<noteq> 0 \<and> socket_linked g (graph_output g0) ''Surface'') \<and>
     has_volume sh' =
       (reference_count shader \<noteq> 0 \<and> socket_linked g (graph_output g0) ''Volume'') \<and>
     (osl_volume_ref sh' \<noteq> None) =
       (reference_count shader \<noteq> 0 \<and> socket_linked g (graph_output g0) ''Volume'') \<and>
     has_displacement sh' =
       (reference_count shader \<noteq> 0 \<and> socket_linked g (graph_output g0) ''Displacement'') \<and>
     (osl_displacement_ref sh' \<noteq> None) =
       (reference_count shader \<noteq> 0 \<and> socket_linked g (graph_output g0) ''Displacement'')"
proof -
  from compile_type_ok_all [OF assms(5,7)]
  obtain k0 where k0: "\<And>fuel. k0 \<le> fuel \<Longrightarrow> \<forall>type. compile_type_ok fuel g type"
    by blast
  have l: "output_linked g (graph_output g0) ''Surface'' =
      Inr (socket_linked g (graph_output g0) ''Surface'')"
    "output_linked g (graph_output g0) ''Volume'' =
      Inr (socket_linked g (graph_output g0) ''Volume'')"
    "output_linked g (graph_output g0) ''Displacement'' =
      Inr (socket_linked g (graph_output g0) ''Displacement'')"
    using assms(6) by (simp_all add: output_linked_sockets)
  show ?thesis
  proof (intro exI [of _ k0] allI impI)
    fix fuel assume "k0 \<le> fuel"
    from compile_result [where finalize = finalize and c = c, OF assms(1,2,3,4) l k0 [OF this]]
    show "\<exists>sh' c'. compile finalize fuel c shader = Some (Inr (sh', c')) \<and>
     has_surface sh' =
       (reference_count shader \<noteq> 0 \<and> socket_linked g (graph_output g0) ''Surface'') \<and>
     (osl_surface_ref sh' \<noteq> None) =
       (reference_count shader \<noteq> 0 \<and> socket_linked g (graph_output g0) ''Surface'') \<and>
     has_volume sh' =
       (reference_count shader \<noteq> 0 \<and> socket_linked g (graph_output g0) ''Volume'') \<and>
     (osl_volume_ref sh' \<noteq> None) =
       (reference_count shader \<noteq> 0 \<and> socket_linked g (graph_output g0) ''Volume'') \<and>
     has_displacement sh' =
       (reference_count shader \<noteq> 0 \<and> socket_linked g (graph_output g0) ''Displacement'') \<and>
     (osl_displacement_ref sh' \<noteq> None) =
       (reference_count shader \<noteq> 0 \<and> socket_linked g (graph_output g0) ''Displacement'')"
      by blast
  qed
qed

lemma diamond_link_rel: "wf (link_rel diamond_graph)"
proof (rule wf_subset [OF wf_less_than])
  show "link_rel diamond_graph \<subseteq> less_than"
    using diamond_links by (auto simp add: link_rel_def)
qed

lemma displacement_only_link_rel: "wf (link_rel displacement_only_graph)"
proof (rule wf_subset [OF wf_less_than])
  show "link_rel displacement_only_graph \<subseteq> less_than"
    by (auto simp add: link_rel_def displacement_only_graph_def output_node_def plain_node_def
        socket_def split: if_splits)
qed

theorem compile_contexts_witness:
  "is_modified diamond_shader \<and> graph diamond_shader = Some diamond_graph \<and>
   compile_has_bump diamond_shader diamond_graph (graph_output diamond_graph) = Inr True \<and>
   diamond_graph = finalize_unchanged True (has_integrator_dependency diamond_shader)
     (displacement_method diamond_shader = DISPLACE_BOTH) diamond_graph \<and>
   wf (link_rel diamond_graph) \<and> output_sockets diamond_graph (graph_output diamond_graph) \<and>
   (\<exists>k0. \<forall>fuel\<ge>k0. \<exists>sh' c'.
      compile finalize_unchanged fuel fresh_compiler diamond_shader = Some (Inr (sh', c')) \<and>
      has_surface sh' \<and> osl_surface_ref sh' \<noteq> None \<and>
      \<not> has_volume sh' \<and> osl_volume_ref sh' = None \<and>
      has_displacement sh' \<and> osl_displacement_ref sh' \<noteq> None)"
proof -
  have h1: "is_modified diamond_shader" and h2: "graph diamond_shader = Some diamond_graph"
    by (simp_all add: diamond_shader_def blank_shader_def)
  have h6: "output_sockets diamond_graph (graph_output diamond_graph)"
    by (simp add: output_sockets_def node_input_def diamond_graph_def output_node_def
        plain_node_def socket_def)
  have l: "socket_linked diamond_graph (graph_output diamond_graph) ''Surface''"
    "\<not> socket_linked diamond_graph (graph_output diamond_graph) ''Volume''"
    "socket_linked diamond_graph (graph_output diamond_graph) ''Displacement''"
    by (simp_all add: socket_linked_def node_input_def diamond_graph_def output_node_def
        plain_node_def socket_def)
  have h3: "compile_has_bump diamond_shader diamond_graph (graph_output diamond_graph) = Inr True"
    using l by (simp add: compile_has_bump_def output_linked_sockets [OF h6] diamond_shader_def
        blank_shader_def)
  have h4: "diamond_graph = finalize_unchanged True (has_integrator_dependency diamond_shader)
     (displacement_method diamond_shader = DISPLACE_BOTH) diamond_graph"
    by (simp add: finalize_unchanged_def)
  have h5: "wf (link_rel diamond_graph)"
    by (rule diamond_link_rel)
  have r: "reference_count diamond_shader \<noteq> 0"
    by (simp add: diamond_shader_def blank_shader_def)
  from compile_contexts [where finalize = finalize_unchanged and c = fresh_compiler,
      OF h1 h2 h3 h4 h5 h6 h6]
  have "\<exists>k0. \<forall>fuel\<ge>k0. \<exists>sh' c'.
      compile finalize_unchanged fuel fresh_compiler diamond_shader = Some (Inr (sh', c')) \<and>
      has_surface sh' \<and> osl_surface_ref sh' \<noteq> None \<and>
      \<not> has_volume sh' \<and> osl_volume_ref sh' = None \<and>
      has_displacement sh' \<and> osl_displacement_ref sh' \<noteq> None"
    using r l by simp
  with h1 h2 h3 h4 h5 h6 show ?thesis
    by blast
qed

text \<open>
  Claim C2, as stated: with only the Displacement input of the Output node linked and the
  displacement method Bump, the Bump context is compiled, \<^verbatim>\<open>has_displacement\<close> is false
  and \<^verbatim>\<open>has_bump\<close> is true. On such a shader the code compiles the Displacement context
  and sets \<^verbatim>\<open>has_displacement\<close>, leaves \<^verbatim>\<open>has_bump\<close> false and leaves
  \<^verbatim>\<open>osl_surface_bump_ref\<close> empty: \<^verbatim>\<open>has_bump\<close> requires the Surface input to be
  linked too.
\<close>

theorem compile_displacement_only_counterexample:
  "map_option has_displacement
     (result_shader (compile finalize_unchanged 3 fresh_compiler displacement_only_shader))
     = Some True \<and>
   map_option has_bump
     (result_shader (compile finalize_unchanged 3 fresh_compiler displacement_only_shader))
     = Some False \<and>
   map_option osl_surface_bump_ref
     (result_shader (compile finalize_unchanged 3 fresh_compiler displacement_only_shader))
     = Some None"
  by (simp add: eval_nat_numeral compile_def compile_has_bump_def compile_surface_def
      compile_volume_def compile_displacement_def compile_reset_def compile_type_def
      type_socket_def generate_nodes_def generate_nodes_over_def compile_node_def
      OSLCompiler_add_def node_flags_def node_skip_input_def
      output_linked_def node_input_def bind_result_def result_shader_def finalize_unchanged_def
      displacement_only_shader_def displacement_only_graph_def blank_shader_def
      fresh_compiler_def output_node_def plain_node_def socket_def Let_def)

text \<open>
  Claim C2, amended: for a modified shader whose graph has the Displacement input of the
  Output node linked and its Surface input unlinked, before and after finalization, and
  whose displacement method is Bump, \<^verbatim>\<open>compile\<close> returns with the Surface context empty
  (\<^verbatim>\<open>osl_surface_ref\<close> empty, \<^verbatim>\<open>has_surface\<close> false), the Bump context not compiled
  (\<^verbatim>\<open>osl_surface_bump_ref\<close> empty), \<^verbatim>\<open>has_bump\<close> false, and the Displacement
  context compiled with \<^verbatim>\<open>has_displacement\<close> true exactly when the shader's reference
  count is not zero.
\<close>

theorem compile_displacement_only:
  assumes "is_modified shader" and "graph shader = Some g0"
    and "displacement_method shader = DISPLACE_BUMP"
    and "g = finalize False (has_integrator_dependency shader) False g0"
    and "wf (link_rel g)"
    and "output_sockets g0 (graph_output g0)"
    and "output_sockets g (graph_output g0)" and "output_sockets g (graph_output g)"
    and "\<not> socket_linked g0 (graph_output g0) ''Surface''"
    and "\<not> socket_linked g (graph_output g0) ''Surface''"
    and "socket_linked g (graph_output g0) ''Displacement''"
  shows "\<exists>k0. \<forall>fuel\<ge>k0. \<exists>sh' c'. compile finalize fuel c shader = Some (Inr (sh', c')) \<and>
     \<not> has_surface sh' \<and> osl_surface_ref sh' = None \<and>
     osl_surface_bump_ref sh' = None \<and> \<not> has_bump sh' \<and>
     has_displacement sh' = (reference_count shader \<noteq> 0) \<and>
     (osl_displacement_ref sh' \<noteq> None) = (reference_count shader \<noteq> 0)"
proof -
  have hb: "compile_has_bump shader g0 (graph_output g0) = Inr False"
    using assms(3,9) by (simp add: compile_has_bump_def output_linked_sockets [OF assms(6)])
  have g: "g = finalize False (has_integrator_dependency shader)
      (displacement_method shader = DISPLACE_BOTH) g0"
    using assms(3,4) by simp
  from compile_type_ok_all [OF assms(5,8)]
  obtain k0 where k0: "\<And>fuel. k0 \<le> fuel \<Longrightarrow> \<forall>type. compile_type_ok fuel g type"
    by blast
  have l: "output_linked g (graph_output g0) ''Surface'' = Inr False"
    "output_linked g (graph_output g0) ''Volume'' =
      Inr (socket_linked g (graph_output g0) ''Volume'')"
    "output_linked g (graph_output g0) ''Displacement'' = Inr True"
    using assms(10,11) by (simp_all add: output_linked_sockets [OF assms(7)])
  show ?thesis
  proof (intro exI [of _ k0] allI impI)
    fix fuel assume "k0 \<le> fuel"
    from compile_result [where finalize = finalize and c = c,
        OF assms(1,2) hb g l k0 [OF this]]
    obtain sh' c' where "compile finalize fuel c shader = Some (Inr (sh', c'))"
      "has_surface sh' = (reference_count shader \<noteq> 0 \<and> False)"
      "(osl_surface_ref sh' \<noteq> None) = (reference_count shader \<noteq> 0 \<and> False)"
      "(osl_surface_bump_ref sh' \<noteq> None) = (reference_count shader \<noteq> 0 \<and> False \<and> False)"
      "has_displacement sh' = (reference_count shader \<noteq> 0 \<and> True)"
      "(osl_displacement_ref sh' \<noteq> None) = (reference_count shader \<noteq> 0 \<and> True)"
      "\<not> (reference_count shader \<noteq> 0 \<and> False) \<longrightarrow> has_bump sh' = False"
      by blast
    then show "\<exists>sh' c'. compile finalize fuel c shader = Some (Inr (sh', c')) \<and>
     \<not> has_surface sh' \<and> osl_surface_ref sh' = None \<and>
     osl_surface_bump_ref sh' = None \<and> \<not> has_bump sh' \<and>
     has_displacement sh' = (reference_count shader \<noteq> 0) \<and>
     (osl_displacement_ref sh' \<noteq> None) = (reference_count shader \<noteq> 0)"
      by simp
  qed
qed

theorem compile_displacement_only_witness:
  "is_modified displacement_only_shader \<and>
   graph displacement_only_shader = Some displacement_only_graph \<and>
   displacement_method displacement_only_shader = DISPLACE_BUMP \<and>
   displacement_only_graph = finalize_unchanged False
     (has_integrator_dependency displacement_only_shader) False displacement_only_graph \<and>
   wf (link_rel displacement_only_graph) \<and>
   output_sockets displacement_only_graph (graph_output displacement_only_graph) \<and>
   \<not> socket_linked displacement_only_graph (graph_output displacement_only_graph) ''Surface'' \<and>
   socket_linked displacement_only_graph (graph_output displacement_only_graph) ''Displacement'' \<and>
   (\<exists>k0. \<forall>fuel\<ge>k0. \<exists>sh' c'.
      compile finalize_unchanged fuel fresh_compiler displacement_only_shader
        = Some (Inr (sh', c')) \<and>
      \<not> has_surface sh' \<and> osl_surface_ref sh' = None \<and>
      osl_surface_bump_ref sh' = None \<and> \<not> has_bump sh' \<and>
      has_displacement sh' \<and> osl_displacement_ref sh' \<noteq> None)"
proof -
  have h1: "is_modified displacement_only_shader"
    and h2: "graph displacement_only_shader = Some displacement_only_graph"
    and h3: "displacement_method displacement_only_shader = DISPLACE_BUMP"
    and r: "reference_count displacement_only_shader \<noteq> 0"
    by (simp_all add: displacement_only_shader_def blank_shader_def)
  have h4: "displacement_only_graph = finalize_unchanged False
     (has_integrator_dependency displacement_only_shader) False displacement_only_graph"
    by (simp add: finalize_unchanged_def)
  have h5: "wf (link_rel displacement_only_graph)"
    by (rule displacement_only_link_rel)
  have h6: "output_sockets displacement_only_graph (graph_output displacement_only_graph)"
    by (simp add: output_sockets_def node_input_def displacement_only_graph_def output_node_def
        plain_node_def socket_def)
  have h9: "\<not> socket_linked displacement_only_graph (graph_output displacement_only_graph)
      ''Surface''"
    and h11: "socket_linked displacement_only_graph (graph_output displacement_only_graph)
      ''Displacement''"
    by (simp_all add: socket_linked_def node_input_def displacement_only_graph_def
        output_node_def plain_node_def socket_def)
  from compile_displacement_only [where finalize = finalize_unchanged and c = fresh_compiler,
      OF h1 h2 h3 h4 h5 h6 h6 h6 h9 h9 h11] r
  have "\<exists>k0. \<forall>fuel\<ge>k0. \<exists>sh' c'.
      compile finalize_unchanged fuel fresh_compiler displacement_only_shader
        = Some (Inr (sh', c')) \<and>
      \<not> has_surface sh' \<and> osl_surface_ref sh' = None \<and>
      osl_surface_bump_ref sh' = None \<and> \<not> has_bump sh' \<and>
      has_displacement sh' \<and> osl_displacement_ref sh' \<noteq> None"
    by simp
  with h1 h2 h3 h4 h5 h6 h9 h11 show ?thesis
    by blast
qed

text \<open>
  Claim C10. \<^verbatim>\<open>compile\<close> on a shader that is not modified returns at once: the shader
  and the compiler, with the groups it has built in the shading system, are unchanged.
\<close>

theorem compile_unmodified:
  assumes "\<not> is_modified shader"
  shows "compile finalize fuel c shader = Some (Inr (shader, c))"
  using assms by (simp add: compile_def)

theorem compile_unmodified_witness:
  "\<not> is_modified (diamond_shader\<lparr>is_modified := False\<rparr>) \<and>
   compile finalize_unchanged 0 fresh_compiler (diamond_shader\<lparr>is_modified := False\<rparr>) =
     Some (Inr (diamond_shader\<lparr>is_modified := False\<rparr>, fresh_compiler))"
  using compile_unmodified [of "diamond_shader\<lparr>is_modified := False\<rparr>" finalize_unchanged 0
      fresh_compiler]
  by simp

section \<open>Properties of \<^verbatim>\<open>shader_load_filepath\<close>\<close>

lemma shader_test_loaded_Some:
  "shader_test_loaded s h = Some h' \<Longrightarrow> h' = h \<and> loaded_shaders s h \<noteq> None"
  by (auto simp add: shader_test_loaded_def split: option.splits)

lemma read_oso_Some:
  assumes "read_oso P path t s = (Some h, s1)"
  shows "h = shader_filepath_hash P path t \<and> loaded_shaders s1 h \<noteq> None \<and>
         files s1 = files s \<and> path_read_text (files s) path \<noteq> None"
  using assms
  by (auto simp add: read_oso_def shader_load_bytecode_def shader_test_loaded_def Let_def
      split: option.splits)

lemma read_oso_None:
  assumes "read_oso P path t s = (None, s1)"
  shows "s1 = s\<lparr>read_log := read_log s @ [path],
                loaded_shaders := (loaded_shaders s)(shader_filepath_hash P path t \<mapsto> empty_info)\<rparr> \<and>
         path_read_text (files s) path = None"
  using assms
  by (auto simp add: read_oso_def shader_load_bytecode_def shader_test_loaded_def Let_def
      split: option.splits)

lemma read_oso_log: "read_log (snd (read_oso P path t s)) = read_log s @ [path]"
  by (simp add: read_oso_def shader_load_bytecode_def Let_def split: option.splits)

lemma shader_test_loaded_iff:
  "shader_test_loaded s h = (if loaded_shaders s h \<noteq> None then Some h else None)"
  by (simp add: shader_test_loaded_def split: option.splits)

lemma shader_load_filepath_other:
  assumes "\<not> is_osl filepath" and "4 \<le> length filepath"
  shows "shader_load_filepath P filepath s =
     (if drop (length filepath - 4) filepath = ''.oso'' \<or> path_dirname P filepath = [] then
        (if loaded_shaders s (shader_filepath_hash P (oso_path P filepath)
               (path_modified_time (files s) filepath)) \<noteq> None
         then Inr (Some (shader_filepath_hash P (oso_path P filepath)
               (path_modified_time (files s) filepath)), s)
         else Inr (read_oso P (oso_path P filepath) (path_modified_time (files s) filepath) s))
      else Inr (None, s))"
  using assms
  by (simp add: shader_load_filepath_def is_osl_def oso_path_def Let_def shader_test_loaded_iff)

lemma shader_load_filepath_osl:
  assumes "is_osl filepath" and "4 \<le> length filepath"
  shows "shader_load_filepath P filepath s =
     (if path_modified_time (files s) (oso_path P filepath) \<noteq> 0 \<and>
         loaded_shaders s (shader_filepath_hash P (oso_path P filepath)
           (path_modified_time (files s) (oso_path P filepath))) \<noteq> None
      then Inr (Some (shader_filepath_hash P (oso_path P filepath)
           (path_modified_time (files s) (oso_path P filepath))), s)
      else if path_modified_time (files s) (oso_path P filepath) = 0 \<or>
          path_modified_time (files s) (oso_path P filepath)
            < path_modified_time (files s) filepath
        then Inr (read_oso P (oso_path P filepath)
               (path_modified_time (osl_compile P filepath (oso_path P filepath) (files s))
                  (oso_path P filepath))
               (s\<lparr>files := osl_compile P filepath (oso_path P filepath) (files s)\<rparr>))
        else Inr (read_oso P (oso_path P filepath)
               (path_modified_time (files s) (oso_path P filepath)) s))"
  using assms
  by (simp add: shader_load_filepath_def is_osl_def oso_path_def Let_def shader_test_loaded_iff)

lemma shader_load_filepath_short:
  "length filepath < 4 \<Longrightarrow> shader_load_filepath P filepath s = Inl Out_of_range"
  by (simp add: shader_load_filepath_def)

text \<open>
  Claim C7, as stated: a second call with the same path, the modification times unchanged,
  returns the same identity and reads no file. This fails for \<^verbatim>\<open>x.osl\<close> when
  \<^verbatim>\<open>x.oso\<close> can be read and its modification time is 0: the test of
  \<^verbatim>\<open>loaded_shaders\<close> is guarded by \<^verbatim>\<open>oso_modified_time != 0\<close>, so the second call
  returns the same hash but compiles, reads \<^verbatim>\<open>x.oso\<close> and loads it again.
\<close>

theorem shader_load_filepath_memoizing_counterexample:
  "fst (projr (shader_load_filepath example_platform ''x.osl'' epoch_loader)) = Some x_hash \<and>
   read_log (snd (projr (shader_load_filepath example_platform ''x.osl'' epoch_loader)))
     = [''x.oso''] \<and>
   fst (projr (shader_load_filepath example_platform ''x.osl''
     (snd (projr (shader_load_filepath example_platform ''x.osl'' epoch_loader)))))
     = Some x_hash \<and>
   read_log (snd (projr (shader_load_filepath example_platform ''x.osl''
     (snd (projr (shader_load_filepath example_platform ''x.osl'' epoch_loader))))))
     = [''x.oso'', ''x.oso'']"
  by (simp add: shader_load_filepath_def read_oso_def shader_load_bytecode_def
      shader_test_loaded_def epoch_loader_def epoch_files_def example_platform_def
      x_hash_def Let_def)

text \<open>
  Claim C7, amended: \<^verbatim>\<open>shader_load_filepath\<close> is memoizing. When a call with a file
  path has returned a shader identity, a second call with the same path on the state the
  first one left, the files unchanged, returns the same hash string and leaves the state as
  it is: it reads no file, compiles nothing and loads nothing. The hash is that of the
  \<^verbatim>\<open>.oso\<close> path and modification time, and it is a key of \<^verbatim>\<open>loaded_shaders\<close>. For a
  \<^verbatim>\<open>.osl\<close> path this holds provided that the \<^verbatim>\<open>.oso\<close> file has a modification time
  other than 0.
\<close>

theorem shader_load_filepath_memoizing:
  assumes "shader_load_filepath P filepath s = Inr (Some h, s1)"
    and "is_osl filepath \<longrightarrow> path_modified_time (files s1) (oso_path P filepath) \<noteq> 0"
  shows "shader_load_filepath P filepath s1 = Inr (Some h, s1) \<and>
         h = shader_filepath_hash P (oso_path P filepath) (oso_time P filepath (files s1)) \<and>
         loaded_shaders s1 h \<noteq> None"
proof -
  have len: "4 \<le> length filepath"
    using assms(1) shader_load_filepath_short [of filepath P s] by (cases "length filepath < 4") auto
  show ?thesis
  proof (cases "is_osl filepath")
    case False
    let ?t = "path_modified_time (files s) filepath"
    let ?h = "shader_filepath_hash P (oso_path P filepath) ?t"
    from assms(1) have known: "drop (length filepath - 4) filepath = ''.oso'' \<or>
        path_dirname P filepath = []"
      unfolding shader_load_filepath_other [OF False len] by (auto split: if_splits)
    have "h = ?h \<and> loaded_shaders s1 ?h \<noteq> None \<and> files s1 = files s"
    proof (cases "loaded_shaders s ?h \<noteq> None")
      case True
      with assms(1) known show ?thesis
        unfolding shader_load_filepath_other [OF False len] by auto
    next
      case no: False
      with assms(1) known have "read_oso P (oso_path P filepath) ?t s = (Some h, s1)"
        unfolding shader_load_filepath_other [OF False len] by auto
      from read_oso_Some [OF this] show ?thesis by auto
    qed
    with known False show ?thesis
      unfolding shader_load_filepath_other [OF False len] oso_time_def by simp
  next
    case True
    let ?o = "oso_path P filepath"
    let ?t = "path_modified_time (files s1) ?o"
    let ?h = "shader_filepath_hash P ?o ?t"
    have t: "?t \<noteq> 0" using assms(2) True by simp
    have "h = ?h \<and> loaded_shaders s1 ?h \<noteq> None"
    proof (cases "path_modified_time (files s) ?o \<noteq> 0 \<and>
         loaded_shaders s (shader_filepath_hash P ?o (path_modified_time (files s) ?o)) \<noteq> None")
      case hit: True
      with assms(1) show ?thesis
        unfolding shader_load_filepath_osl [OF True len] by auto
    next
      case miss: False
      show ?thesis
      proof (cases "path_modified_time (files s) ?o = 0 \<or>
          path_modified_time (files s) ?o < path_modified_time (files s) filepath")
        case comp: True
        let ?s' = "s\<lparr>files := osl_compile P filepath ?o (files s)\<rparr>"
        from assms(1) miss comp have "read_oso P ?o (path_modified_time (files ?s') ?o) ?s'
            = (Some h, s1)"
          unfolding shader_load_filepath_osl [OF True len] by (simp split: if_splits)
        from read_oso_Some [OF this] show ?thesis by auto
      next
        case nocomp: False
        with assms(1) miss have "read_oso P ?o (path_modified_time (files s) ?o) s = (Some h, s1)"
          unfolding shader_load_filepath_osl [OF True len] by (simp split: if_splits)
        from read_oso_Some [OF this] show ?thesis by auto
      qed
    qed
    with t True show ?thesis
      unfolding shader_load_filepath_osl [OF True len] oso_time_def by simp
  qed
qed

lemma example_load_a:
  "shader_load_filepath example_platform ''a.oso'' example_loader = Inr (Some a_hash, loader_with_a)"
  by (simp add: shader_load_filepath_def read_oso_def shader_load_bytecode_def
      shader_test_loaded_def example_loader_def example_files_def loader_with_a_def a_hash_def
      quoted_def Let_def)

lemma example_load_b:
  "shader_load_filepath example_platform ''b.oso'' example_loader = Inr (None, loader_without_b)"
  by (simp add: shader_load_filepath_def read_oso_def shader_load_bytecode_def
      shader_test_loaded_def example_loader_def example_files_def loader_without_b_def
      b_hash_def Let_def)

theorem shader_load_filepath_memoizing_witness:
  "shader_load_filepath example_platform ''a.oso'' example_loader
     = Inr (Some a_hash, loader_with_a) \<and>
   \<not> is_osl ''a.oso'' \<and>
   shader_load_filepath example_platform ''a.oso'' loader_with_a
     = Inr (Some a_hash, loader_with_a) \<and>
   read_log loader_with_a = [''a.oso'']"
proof -
  have h2: "is_osl ''a.oso'' \<longrightarrow>
      path_modified_time (files loader_with_a) (oso_path example_platform ''a.oso'') \<noteq> 0"
    by (simp add: is_osl_def)
  have n: "\<not> is_osl ''a.oso''"
    by (simp add: is_osl_def)
  from shader_load_filepath_memoizing [OF example_load_a h2] example_load_a n
  show ?thesis
    by (simp add: loader_with_a_def)
qed

text \<open>
  Claim C8, as stated: after a failed read, a repeated request does not read the file system
  again and again yields no program. For the missing file \<^verbatim>\<open>b.oso\<close> the first call
  returns NULL and the second returns the hash. For \<^verbatim>\<open>c.osl\<close>, whose \<^verbatim>\<open>.oso\<close> file
  the compiler fails to write, each call tries to read \<^verbatim>\<open>c.oso\<close> again: the cache is
  consulted only when the \<^verbatim>\<open>.oso\<close> file has a modification time other than 0.
\<close>

theorem shader_load_filepath_unreadable_counterexample:
  "fst (projr (shader_load_filepath example_platform ''b.oso'' example_loader)) = None \<and>
   fst (projr (shader_load_filepath example_platform ''b.oso''
     (snd (projr (shader_load_filepath example_platform ''b.oso'' example_loader)))))
     = Some b_hash \<and>
   read_log (snd (projr (shader_load_filepath example_platform ''c.osl'' example_loader)))
     = [''c.oso''] \<and>
   read_log (snd (projr (shader_load_filepath example_platform ''c.osl''
     (snd (projr (shader_load_filepath example_platform ''c.osl'' example_loader))))))
     = [''c.oso'', ''c.oso'']"
  by (simp add: shader_load_filepath_def read_oso_def shader_load_bytecode_def
      shader_test_loaded_def example_loader_def example_files_def example_platform_def
      b_hash_def Let_def)

text \<open>
  Claim C8, amended: when a request is not answered from \<^verbatim>\<open>loaded_shaders\<close> and the
  \<^verbatim>\<open>.oso\<close> file it reads is missing or unreadable, \<^verbatim>\<open>shader_load_filepath\<close> returns
  NULL and stores a default-constructed \<^verbatim>\<open>OSLShaderInfo\<close> under the hash of the
  \<^verbatim>\<open>.oso\<close> path and modification time; a repeated request for the same path, the files
  unchanged, then returns without reading any file and without changing the state, provided
  that for a \<^verbatim>\<open>.osl\<close> path the \<^verbatim>\<open>.oso\<close> file has a modification time other than 0.
\<close>

theorem shader_load_filepath_unreadable:
  assumes "4 \<le> length filepath"
    and "is_osl filepath \<or> drop (length filepath - 4) filepath = ''.oso'' \<or>
         path_dirname P filepath = []"
    and "\<not> answered_from_cache P filepath s"
    and "path_read_text (files_when_read P filepath s) (oso_path P filepath) = None"
    and "s1 = s\<lparr>files := files_when_read P filepath s,
                  read_log := read_log s @ [oso_path P filepath],
                  loaded_shaders := (loaded_shaders s)
                    (shader_filepath_hash P (oso_path P filepath)
                       (oso_time P filepath (files_when_read P filepath s)) \<mapsto> empty_info)\<rparr>"
  shows "shader_load_filepath P filepath s = Inr (None, s1) \<and>
         ((is_osl filepath \<longrightarrow>
             path_modified_time (files s1) (oso_path P filepath) \<noteq> 0) \<longrightarrow>
          (\<exists>r. shader_load_filepath P filepath s1 = Inr (r, s1)))"
proof (cases "is_osl filepath")
  case False
  let ?t = "path_modified_time (files s) filepath"
  let ?h = "shader_filepath_hash P (oso_path P filepath) ?t"
  from False assms(2) have known: "drop (length filepath - 4) filepath = ''.oso'' \<or>
      path_dirname P filepath = []"
    by simp
  have fw: "files_when_read P filepath s = files s"
    using False by (simp add: files_when_read_def)
  have nc: "loaded_shaders s ?h = None"
    using assms(3) False by (simp add: answered_from_cache_def)
  have rd: "path_read_text (files s) (oso_path P filepath) = None"
    using assms(4) fw by simp
  have s1: "s1 = s\<lparr>read_log := read_log s @ [oso_path P filepath],
      loaded_shaders := (loaded_shaders s)(?h \<mapsto> empty_info)\<rparr>"
    unfolding assms(5) fw using False by (simp add: oso_time_def)
  have ro: "read_oso P (oso_path P filepath) ?t s = (None, s1)"
    using rd unfolding s1 by (simp add: read_oso_def Let_def)
  have first: "shader_load_filepath P filepath s = Inr (None, s1)"
    unfolding shader_load_filepath_other [OF False assms(1)] using known nc ro by simp
  have f: "files s1 = files s" "loaded_shaders s1 ?h = Some empty_info"
    unfolding s1 by simp_all
  have "shader_load_filepath P filepath s1 = Inr (Some ?h, s1)"
    unfolding shader_load_filepath_other [OF False assms(1)] using known f by simp
  with first show ?thesis by blast
next
  case True
  let ?o = "oso_path P filepath"
  let ?fs = "files_when_read P filepath s"
  let ?t = "path_modified_time ?fs ?o"
  let ?h = "shader_filepath_hash P ?o ?t"
  have miss: "\<not> (path_modified_time (files s) ?o \<noteq> 0 \<and>
      loaded_shaders s (shader_filepath_hash P ?o (path_modified_time (files s) ?o)) \<noteq> None)"
    using assms(3) True by (simp add: answered_from_cache_def)
  have s1: "s1 = s\<lparr>files := ?fs, read_log := read_log s @ [?o],
      loaded_shaders := (loaded_shaders s)(?h \<mapsto> empty_info)\<rparr>"
    unfolding assms(5) using True by (simp add: oso_time_def)
  have first: "shader_load_filepath P filepath s = Inr (None, s1)"
  proof (cases "path_modified_time (files s) ?o = 0 \<or>
      path_modified_time (files s) ?o < path_modified_time (files s) filepath")
    case comp: True
    then have fw: "?fs = osl_compile P filepath ?o (files s)"
      using True by (simp add: files_when_read_def)
    have "read_oso P ?o (path_modified_time ?fs ?o) (s\<lparr>files := ?fs\<rparr>) = (None, s1)"
      using assms(4) unfolding s1 by (simp add: read_oso_def Let_def)
    then show ?thesis
      unfolding shader_load_filepath_osl [OF True assms(1)] using miss comp fw by simp
  next
    case nocomp: False
    then have fw: "?fs = files s"
      by (simp add: files_when_read_def)
    have "read_oso P ?o (path_modified_time (files s) ?o) s = (None, s1)"
      using assms(4) unfolding s1 fw by (simp add: read_oso_def Let_def)
    then show ?thesis
      unfolding shader_load_filepath_osl [OF True assms(1)] using miss nocomp by simp
  qed
  have f: "files s1 = ?fs" "loaded_shaders s1 ?h = Some empty_info"
    unfolding s1 by simp_all
  have "shader_load_filepath P filepath s1 = Inr (Some ?h, s1)"
    if "path_modified_time (files s1) ?o \<noteq> 0"
    unfolding shader_load_filepath_osl [OF True assms(1)] using that f by simp
  with first True show ?thesis by blast
qed

theorem shader_load_filepath_unreadable_witness:
  "4 \<le> length ''b.oso'' \<and> drop (length ''b.oso'' - 4) ''b.oso'' = ''.oso'' \<and>
   \<not> is_osl ''b.oso'' \<and>
   \<not> answered_from_cache example_platform ''b.oso'' example_loader \<and>
   path_read_text (files_when_read example_platform ''b.oso'' example_loader)
     (oso_path example_platform ''b.oso'') = None \<and>
   shader_load_filepath example_platform ''b.oso'' example_loader
     = Inr (None, loader_without_b) \<and>
   loaded_shaders loader_without_b b_hash = Some empty_info \<and>
   read_log loader_without_b = [''b.oso''] \<and>
   (\<exists>r. shader_load_filepath example_platform ''b.oso'' loader_without_b
      = Inr (r, loader_without_b))"
proof -
  have h1: "4 \<le> length ''b.oso''"
    by simp
  have e: "drop (length ''b.oso'' - 4) ''b.oso'' = ''.oso''"
    by simp
  then have h2: "is_osl ''b.oso'' \<or> drop (length ''b.oso'' - 4) ''b.oso'' = ''.oso'' \<or>
      path_dirname example_platform ''b.oso'' = []"
    by simp
  have n: "\<not> is_osl ''b.oso''"
    by (simp add: is_osl_def)
  have h3: "\<not> answered_from_cache example_platform ''b.oso'' example_loader"
    by (simp add: answered_from_cache_def is_osl_def example_loader_def)
  have h4: "path_read_text (files_when_read example_platform ''b.oso'' example_loader)
      (oso_path example_platform ''b.oso'') = None"
    by (simp add: files_when_read_def oso_path_def is_osl_def example_loader_def
        example_files_def)
  have h5: "loader_without_b = example_loader
      \<lparr>files := files_when_read example_platform ''b.oso'' example_loader,
       read_log := read_log example_loader @ [oso_path example_platform ''b.oso''],
       loaded_shaders := (loaded_shaders example_loader)
         (shader_filepath_hash example_platform (oso_path example_platform ''b.oso'')
            (oso_time example_platform ''b.oso''
               (files_when_read example_platform ''b.oso'' example_loader)) \<mapsto> empty_info)\<rparr>"
    by (simp add: loader_without_b_def b_hash_def files_when_read_def oso_path_def oso_time_def
        is_osl_def example_loader_def example_files_def)
  from shader_load_filepath_unreadable [OF h1 h2 h3 h4 h5] n h1 e h3 h4
  show ?thesis
    by (simp add: loader_without_b_def example_loader_def)
qed

end
